theory Spec2Isabelle
  imports Complex_Main
begin

section \<open>JavaScript strings\<close>

text \<open>
  Strings are lists of characters. The JavaScript string methods used by the
  charts loader (\<open>src/charts-loader.js\<close>), the download manager and the tile routes
  are written out here: \<open>endsWith\<close>, \<open>startsWith\<close>, \<open>split\<close>, \<open>trim\<close>, the
  case-insensitive match of \<open>/\.mbtiles$/i\<close>, and the decimal rendering of an integer
  inside a template string.
\<close>

definition endsWith :: "string \<Rightarrow> string \<Rightarrow> bool" where
  "endsWith s t = (length t \<le> length s \<and> drop (length s - length t) s = t)"

definition startsWith :: "string \<Rightarrow> string \<Rightarrow> bool" where
  "startsWith s t = (take (length t) s = t)"

definition is_space :: "char \<Rightarrow> bool" where
  \<comment> \<open>the WhiteSpace and LineTerminator code units below 256\<close>
  "is_space c = ((of_char c :: nat) \<in> {9, 10, 11, 12, 13, 32, 160})"

definition trim :: "string \<Rightarrow> string" where
  "trim s = rev (dropWhile is_space (rev (dropWhile is_space s)))"

fun split_on :: "char \<Rightarrow> string \<Rightarrow> string list" where
  \<comment> \<open>\<open>s.split(c)\<close> for a one-character separator: never the empty list\<close>
  "split_on c [] = [[]]"
| "split_on c (x # xs) =
     (if x = c then [] # split_on c xs
      else (case split_on c xs of
              [] \<Rightarrow> [[x]]
            | p # ps \<Rightarrow> (x # p) # ps))"

definition lower :: "char \<Rightarrow> char" where
  "lower c = (let n = (of_char c :: nat) in if 65 \<le> n \<and> n \<le> 90 then char_of (n + 32) else c)"

definition isMbtilesName :: "string \<Rightarrow> bool" where
  \<comment> \<open>\<open>name.match(/\.mbtiles$/i)\<close>\<close>
  "isMbtilesName s = endsWith (map lower s) ''.mbtiles''"

definition stripMbtiles :: "string \<Rightarrow> string" where
  \<comment> \<open>\<open>name.replace(/\.mbtiles$/i, '')\<close>\<close>
  "stripMbtiles s = (if isMbtilesName s then take (length s - 8) s else s)"

definition digit_char :: "nat \<Rightarrow> char" where
  "digit_char d = char_of (48 + d)"

fun show_nat :: "nat \<Rightarrow> string" where
  "show_nat n = (if n < 10 then [digit_char n] else show_nat (n div 10) @ [digit_char (n mod 10)])"

declare show_nat.simps [simp del]

definition show_int :: "int \<Rightarrow> string" where
  "show_int i = (if i < 0 then CHR ''-'' # show_nat (nat (- i)) else show_nat (nat i))"

section \<open>POSIX paths\<close>

text \<open>
  \<open>path.basename\<close>, \<open>path.join\<close> and \<open>path.resolve\<close> of Node's \<open>path\<close> module, on a
  POSIX host. \<open>path.resolve\<close> falls back on the working directory when no argument is
  absolute; the working directory is the parameter \<open>cwd\<close>.
\<close>

definition basename :: "string \<Rightarrow> string" where
  \<comment> \<open>trailing slashes are skipped, then everything after the last slash is kept\<close>
  "basename p =
     rev (takeWhile (\<lambda>c. c \<noteq> CHR ''/'') (dropWhile (\<lambda>c. c = CHR ''/'') (rev p)))"

fun norm_segs :: "bool \<Rightarrow> string list \<Rightarrow> string list \<Rightarrow> string list" where
  \<comment> \<open>\<open>normalizeString\<close>: the stack \<open>acc\<close> is kept reversed; above the root of an
      absolute path \<open>..\<close> is dropped, in a relative path it is kept\<close>
  "norm_segs ab acc [] = rev acc"
| "norm_segs ab acc (s # ss) =
     (if s = [] \<or> s = ''.'' then norm_segs ab acc ss
      else if s = ''..'' then
        (case acc of
           [] \<Rightarrow> (if ab then norm_segs ab [] ss else norm_segs ab [s] ss)
         | a # as \<Rightarrow> (if a = ''..'' then norm_segs ab (s # acc) ss else norm_segs ab as ss))
      else norm_segs ab (s # acc) ss)"

definition join_segs :: "string list \<Rightarrow> string" where
  "join_segs ss = concat (map (\<lambda>s. CHR ''/'' # s) ss)"

definition abs_path :: "string list \<Rightarrow> string" where
  "abs_path ss = (if ss = [] then ''/'' else join_segs ss)"

definition is_abs :: "string \<Rightarrow> bool" where
  "is_abs p = startsWith p ''/''"

definition path_resolve :: "string \<Rightarrow> string \<Rightarrow> string \<Rightarrow> string" where
  \<comment> \<open>\<open>path.resolve(a, b)\<close>: arguments are taken from the right until one is absolute\<close>
  "path_resolve cwd a b =
     (let full = (if is_abs b then b
                  else if is_abs a then a @ ''/'' @ b
                  else cwd @ ''/'' @ a @ ''/'' @ b)
      in abs_path (norm_segs True [] (split_on (CHR ''/'') full)))"

definition path_join :: "string \<Rightarrow> string \<Rightarrow> string" where
  \<comment> \<open>\<open>path.join(a, b)\<close>: empty arguments are skipped, the rest is joined with a
      slash and normalised; a trailing slash survives normalisation\<close>
  "path_join a b =
     (let joined = (if a = [] then b else if b = [] then a else a @ ''/'' @ b)
      in if joined = [] then ''.''
         else
           (let ab = is_abs joined;
                trailing = endsWith joined ''/'';
                segs = norm_segs ab [] (split_on (CHR ''/'') joined);
                body = (if segs = [] then [] else tl (join_segs segs))
            in if body = [] then (if ab then ''/'' else if trailing then ''./'' else ''.'')
               else (if ab then ''/'' else []) @ body @ (if trailing then ''/'' else [])))"

section \<open>JavaScript values\<close>

text \<open>
  Parsed JSON, the object that \<open>xml2js\<close> builds and the metadata object of an MBTiles
  file are values of \<open>jsval\<close>; \<open>undefined\<close> is \<open>None\<close> in \<open>jsval option\<close>. Numbers are
  modelled exactly (a rational, NaN or an infinity): rounding to binary64 is not
  modelled. The built-ins \<open>parseFloat\<close> and \<open>parseInt\<close> are parameters \<open>pf\<close> and
  \<open>pint\<close> of every function that calls them.
\<close>

datatype jsnum = NaN | NegInf | Fin rat | PosInf

datatype jsval =
    JNull
  | JBool bool
  | JNum jsnum
  | JStr string
  | JArr "jsval list"
  | JObj "(string \<times> jsval) list"

fun truthy :: "jsval option \<Rightarrow> bool" where
  "truthy None = False"
| "truthy (Some JNull) = False"
| "truthy (Some (JBool b)) = b"
| "truthy (Some (JNum n)) = (n \<noteq> NaN \<and> n \<noteq> Fin 0)"
| "truthy (Some (JStr s)) = (s \<noteq> [])"
| "truthy (Some (JArr xs)) = True"
| "truthy (Some (JObj kvs)) = True"

definition js_or :: "jsval option \<Rightarrow> jsval option \<Rightarrow> jsval option" where
  \<comment> \<open>\<open>a || b\<close>\<close>
  "js_or a b = (if truthy a then a else b)"

fun js_prop :: "jsval \<Rightarrow> string \<Rightarrow> jsval option" where
  \<comment> \<open>\<open>v[k]\<close> on a value that is not null, for the keys the loader asks for: an own
      key of an object (an object lists each key once), an index of an array or of a
      string, \<open>undefined\<close> otherwise\<close>
  "js_prop (JObj kvs) k = map_of kvs k"
| "js_prop (JArr xs) k =
     (case filter (\<lambda>i. show_nat i = k) [0 ..< length xs] of
        [] \<Rightarrow> None
      | i # _ \<Rightarrow> Some (xs ! i))"
| "js_prop (JStr s) k =
     (case filter (\<lambda>i. show_nat i = k) [0 ..< length s] of
        [] \<Rightarrow> None
      | i # _ \<Rightarrow> Some (JStr [s ! i]))"
| "js_prop _ k = None"

fun lodash_get :: "jsval option \<Rightarrow> string list \<Rightarrow> jsval option" where
  \<comment> \<open>\<open>_.get(v, path)\<close>: \<open>undefined\<close> as soon as a step is null or undefined\<close>
  "lodash_get v [] = v"
| "lodash_get None (k # ks) = None"
| "lodash_get (Some JNull) (k # ks) = None"
| "lodash_get (Some v) (k # ks) = lodash_get (js_prop v k) ks"

fun isEmpty :: "jsval option \<Rightarrow> bool" where
  \<comment> \<open>\<open>_.isEmpty\<close>\<close>
  "isEmpty (Some (JObj kvs)) = (kvs = [])"
| "isEmpty (Some (JArr xs)) = (xs = [])"
| "isEmpty (Some (JStr s)) = (s = [])"
| "isEmpty _ = True"

fun lodash_elems :: "jsval option \<Rightarrow> jsval list" where
  \<comment> \<open>the elements \<open>_.map\<close> iterates over\<close>
  "lodash_elems (Some (JArr xs)) = xs"
| "lodash_elems (Some (JObj kvs)) = map snd kvs"
| "lodash_elems (Some (JStr s)) = map (\<lambda>c. JStr [c]) s"
| "lodash_elems _ = []"

fun num_lt :: "jsnum \<Rightarrow> jsnum \<Rightarrow> bool" where
  "num_lt NaN _ = False"
| "num_lt _ NaN = False"
| "num_lt NegInf b = (b \<noteq> NegInf)"
| "num_lt (Fin a) (Fin b) = (a < b)"
| "num_lt (Fin a) PosInf = True"
| "num_lt (Fin a) NegInf = False"
| "num_lt PosInf _ = False"

fun extremum :: "(jsnum \<Rightarrow> jsnum \<Rightarrow> bool) \<Rightarrow> jsnum option \<Rightarrow> jsnum list \<Rightarrow> jsnum option" where
  \<comment> \<open>lodash's \<open>baseExtremum\<close>: NaN never starts and never replaces the result\<close>
  "extremum cmp r [] = r"
| "extremum cmp None (x # xs) = extremum cmp (if x = NaN then None else Some x) xs"
| "extremum cmp (Some c) (x # xs) = extremum cmp (if cmp x c then Some x else Some c) xs"

definition lodash_min :: "jsnum list \<Rightarrow> jsnum option" where
  "lodash_min xs = extremum num_lt None xs"

definition lodash_max :: "jsnum list \<Rightarrow> jsnum option" where
  "lodash_max xs = extremum (\<lambda>a b. num_lt b a) None xs"

definition isFinite :: "jsnum \<Rightarrow> bool" where
  "isFinite n = (case n of Fin _ \<Rightarrow> True | _ \<Rightarrow> False)"

definition num_or :: "jsnum \<Rightarrow> jsnum \<Rightarrow> jsnum" where
  \<comment> \<open>\<open>a || b\<close> on numbers\<close>
  "num_or a b = (if a \<noteq> NaN \<and> a \<noteq> Fin 0 then a else b)"

section \<open>The charts loader\<close>

text \<open>
  A chart as \<open>openMbtilesFile\<close> and \<open>directoryToMapInfo\<close> build it. The two API
  views \<open>v1\<close> and \<open>v2\<close> hold the same URL and the same layer list, kept once here as
  \<open>tilemapUrl\<close> and \<open>chartLayers\<close>; \<open>mbtilesHandle\<close> is the path of the opened
  database.
\<close>

record chart =
  fileFormat :: string
  filePath :: string
  mbtilesHandle :: "string option"
  flipY :: bool
  chart_identifier :: string
  cname :: "jsval option"
  description :: "jsval option"
  bounds :: "jsval option"
  minzoom :: "jsval option"
  maxzoom :: "jsval option"
  format :: "jsval option"
  ctype :: "jsval option"
  scale :: jsnum
  tilemapUrl :: string
  chartLayers :: "jsval option list"

definition tileUrl :: "string \<Rightarrow> string" where
  "tileUrl ident = ''~tilePath~/'' @ ident @ ''/{z}/{x}/{y}''"

text \<open>
  What the file system holds under the charts directory. Of every entry the loader
  looks at the name first, so every entry carries what opening it as an MBTiles
  database would yield. Of a directory it asks whether \<open>tilemapresource.xml\<close> and
  \<open>metadata.json\<close> exist (\<open>None\<close>: \<open>fs.stat\<close> fails), and what reading and parsing
  them yields (\<open>Some None\<close>: reading or parsing throws); the last field is what
  \<open>readdir\<close> lists, \<open>None\<close> when it fails. \<open>EFile\<close> is any entry that is not a
  directory.
\<close>

datatype mb_result = MbError | MbInfo "jsval option"

datatype entry =
    EFile string mb_result
  | EDir string mb_result "jsval option option" "jsval option option" "entry list option"

fun ename :: "entry \<Rightarrow> string" where
  "ename (EFile n m) = n"
| "ename (EDir n m t x cs) = n"

fun emb :: "entry \<Rightarrow> mb_result" where
  "emb (EFile n m) = m"
| "emb (EDir n m t x cs) = m"

definition parseVectorLayers :: "jsval option \<Rightarrow> jsval option list option" where
  \<comment> \<open>\<open>layers.map((l) => l.id)\<close>; \<open>None\<close> when it throws (no array, or a null element)\<close>
  "parseVectorLayers layers =
     (case layers of
        Some (JArr ls) \<Rightarrow> (if JNull \<in> set ls then None else Some (map (\<lambda>l. js_prop l ''id'') ls))
      | _ \<Rightarrow> None)"

definition openMbtilesFile ::
  "(jsval option \<Rightarrow> jsnum) \<Rightarrow> string \<Rightarrow> string \<Rightarrow> mb_result \<Rightarrow> chart option" where
  \<comment> \<open>\<open>None\<close> is the \<open>null\<close> of the source: the database does not open, its metadata
      is empty or has no bounds, or building the chart throws\<close>
  "openMbtilesFile pint file filename r =
     (case r of
        MbError \<Rightarrow> None
      | MbInfo metadata \<Rightarrow>
          (if isEmpty metadata \<or> lodash_get metadata [''bounds''] = None then None
           else
             (let ident = stripMbtiles filename;
                  vl = lodash_get metadata [''vector_layers''];
                  layers = (if truthy vl then parseVectorLayers vl else Some [])
              in case layers of
                   None \<Rightarrow> None
                 | Some ls \<Rightarrow>
                     Some \<lparr> fileFormat = ''mbtiles'',
                            filePath = file,
                            mbtilesHandle = Some file,
                            flipY = False,
                            chart_identifier = ident,
                            cname = js_or (lodash_get metadata [''name'']) (lodash_get metadata [''id'']),
                            description = lodash_get metadata [''description''],
                            bounds = lodash_get metadata [''bounds''],
                            minzoom = lodash_get metadata [''minzoom''],
                            maxzoom = lodash_get metadata [''maxzoom''],
                            format = lodash_get metadata [''format''],
                            ctype = Some (JStr ''tilelayer''),
                            scale = num_or (pint (lodash_get metadata [''scale''])) (Fin 250000),
                            tilemapUrl = tileUrl ident,
                            chartLayers = ls \<rparr>)))"

definition parseIntIfNotUndefined :: "(jsval option \<Rightarrow> jsnum) \<Rightarrow> jsval option \<Rightarrow> jsval option" where
  "parseIntIfNotUndefined pint val =
     (let parsed = pint val in if isFinite parsed then Some (JNum parsed) else None)"

definition parseBounds :: "(jsval option \<Rightarrow> jsnum) \<Rightarrow> jsval option \<Rightarrow> jsval option" where
  \<comment> \<open>the local function of \<open>parseMetadataJson\<close>\<close>
  "parseBounds pf b =
     (case b of
        Some (JStr s) \<Rightarrow>
          Some (JArr (map (\<lambda>bound. JNum (pf (Some (JStr (trim bound))))) (split_on (CHR '','') s)))
      | Some (JArr xs) \<Rightarrow> (if length xs = 4 then Some (JArr xs) else None)
      | _ \<Rightarrow> None)"

definition parseTilemapResource ::
  "(jsval option \<Rightarrow> jsnum) \<Rightarrow> (jsval option \<Rightarrow> jsnum) \<Rightarrow> jsval \<Rightarrow> chart option" where
  \<comment> \<open>on the object parsed from \<open>tilemapresource.xml\<close>; \<open>None\<close> when \<open>parsed.TileMap\<close>
      throws\<close>
  "parseTilemapResource pint pf parsed =
     (if parsed = JNull then None
      else
        (let result = js_prop parsed ''TileMap'';
             name = lodash_get result [''Title'', ''0''];
             fmt = lodash_get result [''TileFormat'', ''0'', ''$'', ''extension''];
             scl = lodash_get result [''Metadata'', ''0'', ''$'', ''scale''];
             bbox = lodash_get result [''BoundingBox'', ''0'', ''$''];
             zoomLevels =
               map (\<lambda>set. pint (lodash_get (Some set) [''$'', ''href'']))
                 (lodash_elems (js_or (lodash_get result [''TileSets'', ''0'', ''TileSet''])
                                  (Some (JArr []))))
         in Some \<lparr> fileFormat = [],
                   filePath = [],
                   mbtilesHandle = None,
                   flipY = True,
                   chart_identifier = [],
                   cname = name,
                   description = name,
                   bounds =
                     (if truthy bbox
                      then Some (JArr [JNum (pf (lodash_get bbox [''minx''])),
                                       JNum (pf (lodash_get bbox [''miny''])),
                                       JNum (pf (lodash_get bbox [''maxx''])),
                                       JNum (pf (lodash_get bbox [''maxy'']))])
                      else None),
                   minzoom = (if zoomLevels \<noteq> [] then map_option JNum (lodash_min zoomLevels) else None),
                   maxzoom = (if zoomLevels \<noteq> [] then map_option JNum (lodash_max zoomLevels) else None),
                   format = fmt,
                   ctype = Some (JStr ''tilelayer''),
                   scale = num_or (pint scl) (Fin 250000),
                   tilemapUrl = [],
                   chartLayers = [] \<rparr>))"

definition parseMetadataJson ::
  "(jsval option \<Rightarrow> jsnum) \<Rightarrow> (jsval option \<Rightarrow> jsnum) \<Rightarrow> jsval \<Rightarrow> chart option" where
  \<comment> \<open>on the value parsed from \<open>metadata.json\<close>; \<open>None\<close> when \<open>metadata.name\<close>
      throws\<close>
  "parseMetadataJson pint pf metadata =
     (if metadata = JNull then None
      else
        Some \<lparr> fileFormat = [],
               filePath = [],
               mbtilesHandle = None,
               flipY = False,
               chart_identifier = [],
               cname = js_or (js_prop metadata ''name'') (js_prop metadata ''id''),
               description = js_or (js_prop metadata ''description'') (Some (JStr [])),
               bounds = parseBounds pf (js_prop metadata ''bounds''),
               minzoom = parseIntIfNotUndefined pint (js_prop metadata ''minzoom''),
               maxzoom = parseIntIfNotUndefined pint (js_prop metadata ''maxzoom''),
               format = js_prop metadata ''format'',
               ctype = js_or (js_prop metadata ''type'') (Some (JStr ''tilelayer'')),
               scale = num_or (pint (js_prop metadata ''scale'')) (Fin 250000),
               tilemapUrl = [],
               chartLayers = [] \<rparr>)"

definition loadInfo ::
  "(jsval option \<Rightarrow> jsnum) \<Rightarrow> (jsval option \<Rightarrow> jsnum) \<Rightarrow>
   jsval option option \<Rightarrow> jsval option option \<Rightarrow> chart option" where
  \<comment> \<open>the descriptor file is tried first; once it exists \<open>metadata.json\<close> is not
      looked at, whatever parsing yields. \<open>None\<close> is both \<open>null\<close> (no file) and a
      rejection (reading or parsing throws): the caller treats them alike\<close>
  "loadInfo pint pf tms xyz =
     (case tms of
        Some r \<Rightarrow> (case r of None \<Rightarrow> None | Some parsed \<Rightarrow> parseTilemapResource pint pf parsed)
      | None \<Rightarrow>
          (case xyz of
             Some r \<Rightarrow> (case r of None \<Rightarrow> None | Some metadata \<Rightarrow> parseMetadataJson pint pf metadata)
           | None \<Rightarrow> None))"

definition directoryToMapInfo ::
  "(jsval option \<Rightarrow> jsnum) \<Rightarrow> (jsval option \<Rightarrow> jsnum) \<Rightarrow> string \<Rightarrow> string \<Rightarrow>
   jsval option option \<Rightarrow> jsval option option \<Rightarrow> chart option" where
  \<comment> \<open>\<open>None\<close> is the \<open>null\<close> or \<open>undefined\<close> of the source\<close>
  "directoryToMapInfo pint pf file ident tms xyz =
     (case loadInfo pint pf tms xyz of
        None \<Rightarrow> None
      | Some info \<Rightarrow>
          (if \<not> truthy (format info) then None
           else Some (info \<lparr> chart_identifier := ident,
                             fileFormat := ''directory'',
                             filePath := file,
                             tilemapUrl := tileUrl ident,
                             chartLayers := [] \<rparr>)))"

fun findChartsRecursive ::
  "(jsval option \<Rightarrow> jsnum) \<Rightarrow> (jsval option \<Rightarrow> jsnum) \<Rightarrow> string \<Rightarrow> string \<Rightarrow>
   entry list option \<Rightarrow> chart option list option"
and scanFiles ::
  "(jsval option \<Rightarrow> jsnum) \<Rightarrow> (jsval option \<Rightarrow> jsnum) \<Rightarrow> string \<Rightarrow> string \<Rightarrow>
   entry list \<Rightarrow> chart option list option"
and scanFile ::
  "(jsval option \<Rightarrow> jsnum) \<Rightarrow> (jsval option \<Rightarrow> jsnum) \<Rightarrow> string \<Rightarrow> string \<Rightarrow>
   entry \<Rightarrow> chart option list option"
where
  \<comment> \<open>the result is \<open>None\<close> when a \<open>readdir\<close> fails: the rejection reaches
      \<open>findCharts\<close>. In the list, \<open>None\<close> is a \<open>null\<close> left by \<open>openMbtilesFile\<close>\<close>
  "findChartsRecursive pint pf cwd currentDir None = None"
| "findChartsRecursive pint pf cwd currentDir (Some files) = scanFiles pint pf cwd currentDir files"
| "scanFiles pint pf cwd currentDir [] = Some []"
| "scanFiles pint pf cwd currentDir (file # files) =
     (case scanFile pint pf cwd currentDir file of
        None \<Rightarrow> None
      | Some r \<Rightarrow>
          (case scanFiles pint pf cwd currentDir files of
             None \<Rightarrow> None
           | Some rs \<Rightarrow> Some (r @ rs)))"
| "scanFile pint pf cwd currentDir (EFile n m) =
     (if isMbtilesName n then Some [openMbtilesFile pint (path_resolve cwd currentDir n) n m]
      else Some [])"
| "scanFile pint pf cwd currentDir (EDir n m tms xyz cs) =
     (if isMbtilesName n then Some [openMbtilesFile pint (path_resolve cwd currentDir n) n m]
      else if startsWith n ''.'' \<or> n = ''node_modules'' then Some []
      else
        (case directoryToMapInfo pint pf (path_resolve cwd currentDir n) n tms xyz of
           Some chartInfo \<Rightarrow> Some [Some chartInfo]
         | None \<Rightarrow> findChartsRecursive pint pf cwd (path_resolve cwd currentDir n) cs))"

definition findCharts ::
  "(jsval option \<Rightarrow> jsnum) \<Rightarrow> (jsval option \<Rightarrow> jsnum) \<Rightarrow> string \<Rightarrow> string \<Rightarrow>
   entry list option \<Rightarrow> (string \<rightharpoonup> chart) option" where
  \<comment> \<open>the registry: charts by identifier, a later chart replacing an earlier one of
      the same identifier; \<open>None\<close> is the \<open>undefined\<close> left by the final \<open>catch\<close>\<close>
  "findCharts pint pf cwd chartBaseDir files =
     (case findChartsRecursive pint pf cwd chartBaseDir files of
        None \<Rightarrow> None
      | Some result \<Rightarrow>
          Some (fold (\<lambda>c reg. reg(chart_identifier c \<mapsto> c)) (List.map_filter id result) Map.empty))"

section \<open>Serving a tile of a directory chart\<close>

text \<open>
  \<open>serveTileFromFilesystem\<close> of the plugin's tile route. The route hands it
  \<open>parseInt\<close> of three digit strings; \<open>z\<close>, \<open>x\<close> and \<open>y\<close> are natural numbers
  here and \<open>Math.pow(2, z) - 1 - y\<close> is an integer, which is what JavaScript computes
  as long as the numbers stay below \<open>2 ^ 53\<close>. A format that is not a string is
  rendered by the parameter \<open>str\<close> (JavaScript's ToString). \<open>res.sendFile\<close> reads
  the file system \<open>fs\<close>: it sends the file, or calls back with the error code
  \<open>ENOENT\<close> for an absent file, or with another error; with an empty path it throws.
\<close>

datatype file_read = Content string | Absent | Failure string

datatype response = SentFile string string | Status nat | Thrown string

definition format_str :: "(jsval option \<Rightarrow> string) \<Rightarrow> jsval option \<Rightarrow> string" where
  "format_str str v = (case v of Some (JStr s) \<Rightarrow> s | _ \<Rightarrow> str v)"

definition tileFile ::
  "(jsval option \<Rightarrow> string) \<Rightarrow> string \<Rightarrow> chart \<Rightarrow> nat \<Rightarrow> nat \<Rightarrow> nat \<Rightarrow> string" where
  \<comment> \<open>the constant \<open>file\<close> of \<open>serveTileFromFilesystem\<close>\<close>
  "tileFile str cwd provider z x y =
     (let flippedY = (2 :: int) ^ z - 1 - int y
      in if filePath provider \<noteq> []
         then path_resolve cwd (filePath provider)
                (show_nat z @ ''/'' @ show_nat x @ ''/'' @
                 (if flipY provider then show_int flippedY else show_nat y) @ ''.'' @
                 format_str str (format provider))
         else [])"

definition serveTileFromFilesystem ::
  "(jsval option \<Rightarrow> string) \<Rightarrow> string \<Rightarrow> (string \<Rightarrow> file_read) \<Rightarrow> chart \<Rightarrow>
   nat \<Rightarrow> nat \<Rightarrow> nat \<Rightarrow> response" where
  "serveTileFromFilesystem str cwd fs provider z x y =
     (let file = tileFile str cwd provider z x y
      in if file = [] then Thrown ''TypeError''
         else
           (case fs file of
              Content bytes \<Rightarrow> SentFile file bytes
            | Absent \<Rightarrow> Status 404
            | Failure code \<Rightarrow> Thrown code))"

section \<open>The download manager: one job\<close>

text \<open>
  A job object of \<open>DownloadManager\<close> with the fields \<open>createJob\<close> gives it
  (\<open>jid\<close> is \<open>id\<close>, \<open>jerror\<close> is \<open>error\<close>; an absent \<open>chartName\<close> is the empty
  string, which the code treats the same way). \<open>totalBytes\<close> is \<open>None\<close> when
  \<open>parseInt\<close> of the length header is NaN.

  \<open>downloadAndExtract\<close> registers callbacks and returns; what happens next is driven
  by the events of the request, the response, the archive parser and the write
  streams. The callbacks are the cases of \<open>job_event\<close>. What the callbacks close over
  is kept in the fields after \<open>jerror\<close>: which callbacks are registered (\<open>phase\<close>),
  whether the promise awaited by \<open>processJob\<close> is settled, the write streams of the
  archive entries with the promise of each, whether the archive parser has finished or
  failed (\<open>sourceDone\<close>), whether its \<open>finish\<close> handler waits in \<open>Promise.all\<close>, the
  path of the direct download, and the calls made to \<open>fs.createWriteStream\<close>,
  \<open>fs.unlink\<close> and \<open>entry.autodrain\<close>. Emitted events and log lines are left out.
\<close>

datatype status = Queued | Downloading | Extracting | Completed | Failed

datatype phase = NotStarted | Requesting | Zip | Direct | Done

datatype pstate = Pending | Resolved | Rejected string

datatype wstream = WStream (ws_name: string) (ws_closed: bool) (ws_promise: pstate)

record job =
  jid :: string
  url :: string
  targetDir :: string
  chartName :: string
  status :: status
  progress :: nat
  downloadedBytes :: nat
  totalBytes :: "int option"
  extractedFiles :: "string list"
  targetFiles :: "string list"
  createdAt :: nat
  startedAt :: "nat option"
  completedAt :: "nat option"
  jerror :: "string option"
  phase :: phase
  settled :: bool
  streams :: "wstream list"
  sourceDone :: bool
  awaitingAll :: bool
  targetPath :: string
  opened :: "string list"
  unlinked :: "string list"
  drained :: "string list"

definition new_job :: "nat \<Rightarrow> string \<Rightarrow> string \<Rightarrow> string \<Rightarrow> string \<Rightarrow> job" where
  \<comment> \<open>the object literal of \<open>createJob\<close>, created at time \<open>now\<close>\<close>
  "new_job now i u dir nm =
     \<lparr> jid = i, url = u, targetDir = dir, chartName = nm, status = Queued, progress = 0,
       downloadedBytes = 0, totalBytes = Some 0, extractedFiles = [], targetFiles = [],
       createdAt = now, startedAt = None, completedAt = None, jerror = None,
       phase = NotStarted, settled = False, streams = [], sourceDone = False,
       awaitingAll = False, targetPath = [], opened = [], unlinked = [], drained = [] \<rparr>"

definition start_job :: "nat \<Rightarrow> job \<Rightarrow> job" where
  \<comment> \<open>\<open>processJob\<close> up to its \<open>await\<close>: the request is sent\<close>
  "start_job now j = j \<lparr> status := Downloading, startedAt := Some now, phase := Requesting \<rparr>"

definition resolve :: "nat \<Rightarrow> job \<Rightarrow> job" where
  \<comment> \<open>\<open>resolve()\<close>, then the rest of the \<open>try\<close> block of \<open>processJob\<close>; a settled
      promise stays as it is\<close>
  "resolve now j =
     (if settled j then j
      else j \<lparr> settled := True, status := Completed, progress := 100, completedAt := Some now \<rparr>)"

definition reject :: "nat \<Rightarrow> string \<Rightarrow> job \<Rightarrow> job" where
  \<comment> \<open>\<open>reject(new Error(msg))\<close>, then the \<open>catch\<close> block of \<open>processJob\<close>\<close>
  "reject now msg j =
     (if settled j then j
      else j \<lparr> settled := True, status := Failed,
               jerror := Some (if msg = [] then ''Download failed'' else msg),
               completedAt := Some now \<rparr>)"

definition str_includes :: "string \<Rightarrow> string \<Rightarrow> bool" where
  \<comment> \<open>\<open>s.includes(t)\<close>\<close>
  "str_includes s t = list_ex (\<lambda>i. take (length t) (drop i s) = t) [0 ..< Suc (length s)]"

definition directFileName :: "string \<Rightarrow> string \<Rightarrow> string" where
  \<comment> \<open>the variable \<open>fileName\<close> of the direct branch\<close>
  "directFileName nm u =
     (if nm \<noteq> [] \<and> trim nm \<noteq> [] then
        (let fileName = trim nm
         in if \<not> endsWith fileName ''.mbtiles'' then fileName @ ''.mbtiles'' else fileName)
      else
        (let fileName = hd (split_on (CHR ''?'') (basename u))
         in if \<not> endsWith fileName ''.mbtiles'' then fileName @ ''.mbtiles'' else fileName))"

definition first_rejected :: "wstream list \<Rightarrow> string option" where
  "first_rejected ws =
     (case filter (\<lambda>w. ws_promise w \<noteq> Pending \<and> ws_promise w \<noteq> Resolved) ws of
        [] \<Rightarrow> None
      | w # _ \<Rightarrow> (case ws_promise w of Rejected m \<Rightarrow> Some m | _ \<Rightarrow> None))"

definition after_all :: "nat \<Rightarrow> job \<Rightarrow> job" where
  \<comment> \<open>the \<open>finish\<close> handler of the archive parser once \<open>Promise.all\<close> is settled: it
      rejects with the first rejection, otherwise it looks at \<open>extractedFiles\<close>\<close>
  "after_all now j =
     (if \<not> awaitingAll j then j
      else
        (case first_rejected (streams j) of
           Some m \<Rightarrow> reject now m (j \<lparr> awaitingAll := False \<rparr>)
         | None \<Rightarrow>
             (if list_all (\<lambda>w. ws_promise w = Resolved) (streams j) then
                (if extractedFiles j = [] then
                   reject now ''No .mbtiles files found in archive'' (j \<lparr> awaitingAll := False \<rparr>)
                 else resolve now (j \<lparr> awaitingAll := False, progress := 100 \<rparr>))
              else j)))"

datatype jevent =
    Response nat "string option" "string option" "int option"
  | RequestError string
  | Data nat
  | Entry string bool
  | StreamClose nat
  | StreamError nat string
  | ZipFinish
  | ZipError string
  | FileFinish
  | FileError string
  | Cancel

definition followed :: "nat \<Rightarrow> string option \<Rightarrow> string option" where
  \<comment> \<open>the redirect that is followed: the \<open>Location\<close> header of a 301 or 302 response,
      when it is a non-empty string\<close>
  "followed code location =
     (if code = 301 \<or> code = 302 then
        (case location of
           None \<Rightarrow> None
         | Some redirectUrl \<Rightarrow> (if redirectUrl \<noteq> [] then Some redirectUrl else None))
      else None)"

definition on_response :: "nat \<Rightarrow> nat \<Rightarrow> string option \<Rightarrow> string option \<Rightarrow> int option \<Rightarrow> job \<Rightarrow> job" where
  \<comment> \<open>the callback of \<open>protocol.get\<close>: status code, \<open>Location\<close> header, \<open>Content-Type\<close>
      header, and \<open>parseInt\<close> of the \<open>Content-Length\<close> header or of \<open>'0'\<close>\<close>
  "on_response now code location contentTypeHeader clen j =
     (case followed code location of
        Some redirectUrl \<Rightarrow> j \<lparr> url := redirectUrl \<rparr>
      | None \<Rightarrow>
      if code \<noteq> 200 then
        (reject now (''HTTP '' @ show_nat code) j) \<lparr> phase := Done \<rparr>
      else
        (let j1 = j \<lparr> totalBytes := clen \<rparr>;
             contentType = (case contentTypeHeader of None \<Rightarrow> [] | Some t \<Rightarrow> t)
         in if str_includes contentType ''zip'' \<or> endsWith (url j1) ''.zip'' then
              j1 \<lparr> status := Extracting, phase := Zip \<rparr>
            else
              (let fileName = directFileName (chartName j1) (url j1);
                   tp = path_join (targetDir j1) fileName
               in j1 \<lparr> targetFiles := targetFiles j1 @ [fileName],
                        targetPath := tp,
                        opened := opened j1 @ [tp],
                        phase := Direct \<rparr>)))"

definition on_data :: "nat \<Rightarrow> job \<Rightarrow> job" where
  \<comment> \<open>a chunk of \<open>n\<close> bytes; the quotient is taken exactly, where the source divides
      two doubles\<close>
  "on_data n j =
     (let d = downloadedBytes j + n;
          j1 = j \<lparr> downloadedBytes := d \<rparr>
      in case totalBytes j of
           Some c \<Rightarrow> (if c > 0 then j1 \<lparr> progress := min 90 (nat ((int d * 90) div c)) \<rparr> else j1)
         | None \<Rightarrow> j1)"

definition on_entry :: "string \<Rightarrow> bool \<Rightarrow> job \<Rightarrow> job" where
  \<comment> \<open>an archive entry with its path, and whether its type is \<open>'File'\<close>\<close>
  "on_entry fileName isFile j =
     (if isFile \<and> endsWith fileName ''.mbtiles'' then
        (let tp = path_join (targetDir j) (basename fileName);
             targetFileName = basename fileName
         in j \<lparr> targetFiles := targetFiles j @ [targetFileName],
                 opened := opened j @ [tp],
                 streams := streams j @ [WStream fileName False Pending] \<rparr>)
      else j \<lparr> drained := drained j @ [fileName] \<rparr>)"

definition settle_stream :: "pstate \<Rightarrow> wstream \<Rightarrow> wstream" where
  "settle_stream p w = (if ws_promise w = Pending then WStream (ws_name w) (ws_closed w) p else w)"

definition cancel :: "nat \<Rightarrow> job \<Rightarrow> job" where
  \<comment> \<open>\<open>cancelJob\<close> on a job that was found\<close>
  "cancel now j =
     (if status j = Completed then j
      else j \<lparr> status := Failed, jerror := Some ''Cancelled by user'', completedAt := Some now,
               unlinked := unlinked j @ map (\<lambda>fileName. path_join (targetDir j) fileName) (targetFiles j) \<rparr>)"

definition job_event :: "nat \<Rightarrow> jevent \<Rightarrow> job \<Rightarrow> job" where
  \<comment> \<open>an event that no registered callback listens to leaves the job as it is\<close>
  "job_event now e j =
     (case e of
        Response code location cty clen \<Rightarrow>
          (if phase j = Requesting then on_response now code location cty clen j else j)
      | RequestError msg \<Rightarrow>
          (if phase j = Requesting then (reject now msg j) \<lparr> phase := Done \<rparr> else j)
      | Data n \<Rightarrow>
          (if phase j = Zip \<or> phase j = Direct then on_data n j else j)
      | Entry fileName isFile \<Rightarrow>
          (if phase j = Zip \<and> \<not> sourceDone j then on_entry fileName isFile j else j)
      | StreamClose k \<Rightarrow>
          (if phase j = Zip \<and> k < length (streams j) \<and> \<not> ws_closed (streams j ! k) then
             after_all now
               (j \<lparr> extractedFiles := extractedFiles j @ [basename (ws_name (streams j ! k))],
                     streams := (streams j)[k := settle_stream Resolved
                                  (WStream (ws_name (streams j ! k)) True (ws_promise (streams j ! k)))] \<rparr>)
           else j)
      | StreamError k msg \<Rightarrow>
          (if phase j = Zip \<and> k < length (streams j) then
             after_all now (j \<lparr> streams := (streams j)[k := settle_stream (Rejected msg) (streams j ! k)] \<rparr>)
           else j)
      | ZipFinish \<Rightarrow>
          (if phase j = Zip \<and> \<not> sourceDone j then
             after_all now (j \<lparr> sourceDone := True, awaitingAll := True \<rparr>)
           else j)
      | ZipError msg \<Rightarrow>
          (if phase j = Zip \<and> \<not> sourceDone j then reject now msg (j \<lparr> sourceDone := True \<rparr>) else j)
      | FileFinish \<Rightarrow>
          (if phase j = Direct \<and> \<not> sourceDone j then
             resolve now (j \<lparr> sourceDone := True,
                              extractedFiles := extractedFiles j @ [basename (targetPath j)],
                              progress := 100 \<rparr>)
           else j)
      | FileError msg \<Rightarrow>
          (if phase j = Direct \<and> \<not> sourceDone j then
             reject now msg (j \<lparr> sourceDone := True, unlinked := unlinked j @ [targetPath j] \<rparr>)
           else j)
      | Cancel \<Rightarrow> cancel now j)"

definition run_job :: "(nat \<times> jevent) list \<Rightarrow> job \<Rightarrow> job" where
  \<comment> \<open>the job after a sequence of timed events\<close>
  "run_job evs j = foldl (\<lambda>s (now, e). job_event now e s) j evs"

section \<open>The download manager: the queue\<close>

text \<open>
  The manager holds job objects by reference: \<open>objs\<close> is the store of all job objects
  ever created, \<open>jobs\<close> is the \<open>Map\<close> from job id to the index of an object, in the
  \<open>Map\<close>'s iteration order. A running download keeps its object also when the \<open>Map\<close>
  has dropped it. The id that \<open>createJob\<close> draws from the clock and the random
  generator is a parameter.
\<close>

record manager =
  objs :: "job list"
  jobs :: "(string \<times> nat) list"
  activeDownloads :: int

definition maxConcurrent :: int where
  "maxConcurrent = 3"

definition init_manager :: manager where
  "init_manager = \<lparr> objs = [], jobs = [], activeDownloads = 0 \<rparr>"

definition map_set :: "string \<Rightarrow> nat \<Rightarrow> (string \<times> nat) list \<Rightarrow> (string \<times> nat) list" where
  \<comment> \<open>\<open>Map.prototype.set\<close>: a known key keeps its place, a new key goes last\<close>
  "map_set k v m =
     (if k \<in> set (map fst m) then map (\<lambda>(k', v'). if k' = k then (k', v) else (k', v')) m
      else m @ [(k, v)])"

definition first_queued :: "manager \<Rightarrow> nat option" where
  \<comment> \<open>\<open>Array.from(this.jobs.values()).find(job => job.status === 'queued')\<close>\<close>
  "first_queued m = find (\<lambda>r. status (objs m ! r) = Queued) (map snd (jobs m))"

definition processQueue :: "nat \<Rightarrow> manager \<Rightarrow> manager" where
  \<comment> \<open>up to the \<open>await\<close>; what follows the \<open>await\<close> is in \<open>step\<close>\<close>
  "processQueue now m =
     (if activeDownloads m \<ge> maxConcurrent then m
      else
        (case first_queued m of
           None \<Rightarrow> m
         | Some r \<Rightarrow>
             m \<lparr> activeDownloads := activeDownloads m + 1,
                 objs := (objs m)[r := start_job now (objs m ! r)] \<rparr>))"

definition createJob :: "nat \<Rightarrow> string \<Rightarrow> string \<Rightarrow> string \<Rightarrow> string \<Rightarrow> manager \<Rightarrow> manager" where
  "createJob now i u dir nm m =
     processQueue now
       (m \<lparr> objs := objs m @ [new_job now i u dir nm],
            jobs := map_set i (length (objs m)) (jobs m) \<rparr>)"

datatype cancel_result = CancelOk | CancelError string

definition cancelJob :: "nat \<Rightarrow> string \<Rightarrow> manager \<Rightarrow> cancel_result \<times> manager" where
  \<comment> \<open>the returned object (\<open>success: true\<close>, or \<open>success: false\<close> with its error) and
      the manager afterwards\<close>
  "cancelJob now i m =
     (case map_of (jobs m) i of
        None \<Rightarrow> (CancelError ''Job not found'', m)
      | Some r \<Rightarrow>
          (if status (objs m ! r) = Completed then (CancelError ''Job already completed'', m)
           else (CancelOk, m \<lparr> objs := (objs m)[r := cancel now (objs m ! r)] \<rparr>)))"

definition expired :: "nat \<Rightarrow> job \<Rightarrow> bool" where
  \<comment> \<open>the test of \<open>cleanup\<close>; a \<open>completedAt\<close> of 0 is falsy\<close>
  "expired now j =
     ((status j = Completed \<or> status j = Failed) \<and>
      (case completedAt j of
         None \<Rightarrow> False
       | Some t \<Rightarrow> t \<noteq> 0 \<and> int t < int now - 60 * 60 * 1000))"

definition cleanup :: "nat \<Rightarrow> manager \<Rightarrow> manager" where
  "cleanup now m = m \<lparr> jobs := filter (\<lambda>(i, r). \<not> expired now (objs m ! r)) (jobs m) \<rparr>"

datatype mevent =
    CreateJob string string string string
  | JobEvent nat jevent
  | CancelJob string
  | Cleanup

definition job_step :: "nat \<Rightarrow> nat \<Rightarrow> jevent \<Rightarrow> manager \<Rightarrow> manager" where
  \<comment> \<open>an event of the job object \<open>r\<close>. When it settles the promise that \<open>processQueue\<close>
      awaits, \<open>processQueue\<close> resumes: it counts the job out and looks for the next
      one. Cancellation reaches a job through \<open>cancelJob\<close> only\<close>
  "job_step now r e m =
     (if r < length (objs m) \<and> e \<noteq> Cancel then
        (let j = objs m ! r;
             j' = job_event now e j;
             m1 = m \<lparr> objs := (objs m)[r := j'] \<rparr>
         in if \<not> settled j \<and> settled j'
            then processQueue now (m1 \<lparr> activeDownloads := activeDownloads m1 - 1 \<rparr>)
            else m1)
      else m)"

fun step :: "nat \<Rightarrow> mevent \<Rightarrow> manager \<Rightarrow> manager" where
  "step now (CreateJob i u dir nm) m = createJob now i u dir nm m"
| "step now (JobEvent r e) m = job_step now r e m"
| "step now (CancelJob i) m = snd (cancelJob now i m)"
| "step now Cleanup m = cleanup now m"

definition run :: "(nat \<times> mevent) list \<Rightarrow> manager" where
  \<comment> \<open>the manager after a sequence of timed events, from the fresh singleton\<close>
  "run evs = foldl (\<lambda>m (now, e). step now e m) init_manager evs"

definition in_flight :: "job \<Rightarrow> bool" where
  "in_flight j = (status j = Downloading \<or> status j = Extracting)"

definition in_flight_jobs :: "manager \<Rightarrow> (string \<times> nat) list" where
  \<comment> \<open>the jobs of the \<open>Map\<close> in status \<open>downloading\<close> or \<open>extracting\<close>\<close>
  "in_flight_jobs m = filter (\<lambda>(i, r). in_flight (objs m ! r)) (jobs m)"

section \<open>Well-formed paths\<close>

definition clean_seg :: "string \<Rightarrow> bool" where
  \<comment> \<open>a path segment that normalisation keeps as it is\<close>
  "clean_seg s = (s \<noteq> [] \<and> s \<noteq> ''.'' \<and> s \<noteq> ''..'' \<and> CHR ''/'' \<notin> set s)"

definition tms_chart_example :: chart where
  \<comment> \<open>a chart as \<open>directoryToMapInfo\<close> builds it from a \<open>tilemapresource.xml\<close>, for the
      directory \<open>/charts/tms1\<close>\<close>
  "tms_chart_example =
     \<lparr> fileFormat = ''directory'', filePath = ''/charts/tms1'', mbtilesHandle = None,
       flipY = True, chart_identifier = ''tms1'', cname = Some (JStr ''Harbour''),
       description = Some (JStr ''Harbour''),
       bounds = Some (JArr [JNum (Fin 1), JNum (Fin 2), JNum (Fin 3), JNum (Fin 4)]),
       minzoom = Some (JNum (Fin 0)), maxzoom = Some (JNum (Fin 5)),
       format = Some (JStr ''png''), ctype = Some (JStr ''tilelayer''), scale = Fin 250000,
       tilemapUrl = ''~tilePath~/tms1/{z}/{x}/{y}'', chartLayers = [] \<rparr>"

section \<open>The file name of a direct download, in the words of the specification\<close>






section \<open>Traces of one download\<close>

definition followed_redirect :: "jevent \<Rightarrow> bool" where
  \<comment> \<open>a response that the callback answers with a new request\<close>
  "followed_redirect e =
     (case e of Response code location cty clen \<Rightarrow> followed code location \<noteq> None | _ \<Rightarrow> False)"

definition unmatched :: "jevent \<Rightarrow> bool" where
  \<comment> \<open>what can happen while an archive without chart files is read: chunks arrive,
      entries that are no regular file or whose name does not end in \<open>.mbtiles\<close> are
      met, the job is cancelled\<close>
  "unmatched e =
     (case e of
        Data n \<Rightarrow> True
      | Entry fileName isFile \<Rightarrow> \<not> (isFile \<and> endsWith fileName ''.mbtiles'')
      | Cancel \<Rightarrow> True
      | _ \<Rightarrow> False)"

definition entry_paths :: "(nat \<times> jevent) list \<Rightarrow> string list" where
  "entry_paths evs =
     concat (map (\<lambda>(t, e). case e of Entry fileName isFile \<Rightarrow> [fileName] | _ \<Rightarrow> []) evs)"

definition zip_idle :: "job \<Rightarrow> bool" where
  \<comment> \<open>an archive is being read and no write stream was opened so far\<close>
  "zip_idle j =
     (phase j = Zip \<and> \<not> sourceDone j \<and> \<not> settled j \<and> \<not> awaitingAll j \<and> streams j = [] \<and>
      extractedFiles j = [] \<and> targetFiles j = [] \<and> opened j = [] \<and> unlinked j = [])"

section \<open>A \<open>parseInt\<close> for the examples\<close>

definition is_digit :: "char \<Rightarrow> bool" where
  "is_digit c = (48 \<le> (of_char c :: nat) \<and> (of_char c :: nat) \<le> 57)"

definition read_nat :: "string \<Rightarrow> nat" where
  "read_nat s = foldl (\<lambda>n c. 10 * n + (of_char c - 48)) 0 s"

definition parse_decimal :: "string \<Rightarrow> jsnum" where
  \<comment> \<open>\<open>parseInt\<close> on a string that does not go on with \<open>0x\<close> after the sign: white
      space is skipped, a sign is read, then the leading decimal digits\<close>
  "parse_decimal s =
     (let s1 = dropWhile is_space s;
          neg = (s1 \<noteq> [] \<and> hd s1 = CHR ''-'');
          s2 = (if s1 \<noteq> [] \<and> (hd s1 = CHR ''-'' \<or> hd s1 = CHR ''+'') then tl s1 else s1);
          ds = takeWhile is_digit s2
      in if ds = [] then NaN
         else Fin (if neg then - of_nat (read_nat ds) else of_nat (read_nat ds)))"

definition parseInt_basic :: "jsval option \<Rightarrow> jsnum" where
  \<comment> \<open>JavaScript's \<open>parseInt\<close> on the arguments of the examples: \<open>undefined\<close>,
      \<open>null\<close>, a boolean, NaN and the infinities give NaN; an integer below \<open>10 ^ 21\<close>
      gives itself; a string is read by \<open>parse_decimal\<close>. Strings with a \<open>0x\<close>
      prefix, other numbers, arrays and objects do not occur in the examples\<close>
  "parseInt_basic v =
     (case v of
        Some (JStr s) \<Rightarrow> parse_decimal s
      | Some (JNum (Fin r)) \<Rightarrow> (if r = of_int \<lfloor>r\<rfloor> \<and> \<bar>r\<bar> < 10 ^ 21 then Fin r else NaN)
      | _ \<Rightarrow> NaN)"

section \<open>Invariants of the queue\<close>

definition running :: "job \<Rightarrow> bool" where
  \<comment> \<open>\<open>processJob\<close> was called for the job and the promise it awaits is not settled\<close>
  "running j = (phase j \<noteq> NotStarted \<and> \<not> settled j)"

definition job_ok :: "job \<Rightarrow> bool" where
  "job_ok j =
     ((in_flight j \<longrightarrow> running j) \<and>
      (phase j = NotStarted \<longrightarrow> \<not> settled j) \<and>
      (phase j = Requesting \<longrightarrow> \<not> settled j) \<and>
      (status j = Queued \<longrightarrow> phase j = NotStarted))"

definition manager_ok :: "manager \<Rightarrow> bool" where
  "manager_ok m =
     (activeDownloads m = int (length (filter running (objs m))) \<and>
      activeDownloads m \<le> maxConcurrent \<and>
      (\<forall>j \<in> set (objs m). job_ok j) \<and>
      (\<forall>r \<in> set (map snd (jobs m)). r < length (objs m)) \<and>
      distinct (map snd (jobs m)) \<and>
      distinct (map fst (jobs m)))"

definition frees_slot :: "nat \<Rightarrow> mevent \<Rightarrow> manager \<Rightarrow> bool" where
  \<comment> \<open>the event settles the promise of a job, so that \<open>processQueue\<close> resumes after
      its \<open>await\<close>\<close>
  "frees_slot now e m =
     (case e of
        JobEvent r je \<Rightarrow>
          r < length (objs m) \<and> je \<noteq> Cancel \<and> \<not> settled (objs m ! r) \<and>
          settled (job_event now je (objs m ! r))
      | _ \<Rightarrow> False)"

definition three_jobs :: "(nat \<times> mevent) list" where
  \<comment> \<open>three jobs are submitted to a fresh manager\<close>
  "three_jobs =
     [(0, CreateJob ''a'' ''http://host/a.zip'' ''/charts'' []),
      (1, CreateJob ''b'' ''http://host/b.zip'' ''/charts'' []),
      (2, CreateJob ''c'' ''http://host/c.zip'' ''/charts'' [])]"

definition four_jobs :: "(nat \<times> mevent) list" where
  \<comment> \<open>then a fourth\<close>
  "four_jobs = three_jobs @ [(3, CreateJob ''d'' ''http://host/d.zip'' ''/charts'' [])]"

definition five_jobs :: "(nat \<times> mevent) list" where
  \<comment> \<open>and a fifth\<close>
  "five_jobs = four_jobs @ [(4, CreateJob ''e'' ''http://host/e.zip'' ''/charts'' [])]"

definition is_create :: "mevent \<Rightarrow> bool" where
  \<comment> \<open>the event is a call of \<open>createJob\<close>\<close>
  "is_create e = (case e of CreateJob i u dir nm \<Rightarrow> True | _ \<Rightarrow> False)"

definition cancel_example :: "(nat \<times> mevent) list" where
  \<comment> \<open>a job is submitted and its direct download has begun\<close>
  "cancel_example =
     [(0, CreateJob ''a'' ''http://host/a.mbtiles'' ''/charts'' []),
      (1, JobEvent 0 (Response 200 None (Some ''application/octet-stream'') (Some 10))),
      (2, JobEvent 0 (Data 4))]"

definition files_ok :: "job \<Rightarrow> bool" where
  \<comment> \<open>every name in \<open>extractedFiles\<close> is in \<open>targetFiles\<close>, and so is every name that
      a callback still to come will push onto \<open>extractedFiles\<close>\<close>
  "files_ok j =
     (set (extractedFiles j) \<subseteq> set (targetFiles j) \<and>
      (\<forall>w \<in> set (streams j). basename (ws_name w) \<in> set (targetFiles j)) \<and>
      (phase j = Direct \<longrightarrow> basename (targetPath j) \<in> set (targetFiles j)))"

definition chart_checked :: "chart \<Rightarrow> bool" where
  \<comment> \<open>what the loader has tested of a chart: the bounds of a database, the format of a
      directory\<close>
  "chart_checked c =
     (fileFormat c = ''mbtiles'' \<and> bounds c \<noteq> None \<or>
      fileFormat c = ''directory'' \<and> truthy (format c))"

section \<open>Facts about strings and paths\<close>

lemma digit_char_numeral:
  "digit_char 0 = CHR ''0''" "digit_char 1 = CHR ''1''" "digit_char 2 = CHR ''2''"
  "digit_char 3 = CHR ''3''" "digit_char 4 = CHR ''4''" "digit_char 5 = CHR ''5''"
  "digit_char 6 = CHR ''6''" "digit_char 7 = CHR ''7''" "digit_char 8 = CHR ''8''"
  "digit_char 9 = CHR ''9''"
  by (simp_all add: digit_char_def char_of_def bit_0)

lemma of_char_digit_char: "d < 10 \<Longrightarrow> (of_char (digit_char d) :: nat) = 48 + d"
  by (simp add: digit_char_def)

lemma digit_char_neq:
  assumes "d < 10"
  shows "digit_char d \<noteq> CHR ''/''" "digit_char d \<noteq> CHR ''.''" "digit_char d \<noteq> CHR ''-''"
proof -
  have e: "(of_char (digit_char d) :: nat) = 48 + d" by (rule of_char_digit_char[OF assms])
  show "digit_char d \<noteq> CHR ''/''"
  proof
    assume "digit_char d = CHR ''/''"
    then have "(of_char (digit_char d) :: nat) = of_char (CHR ''/'')" by simp
    with e show False by simp
  qed
  show "digit_char d \<noteq> CHR ''.''"
  proof
    assume "digit_char d = CHR ''.''"
    then have "(of_char (digit_char d) :: nat) = of_char (CHR ''.'')" by simp
    with e show False by simp
  qed
  show "digit_char d \<noteq> CHR ''-''"
  proof
    assume "digit_char d = CHR ''-''"
    then have "(of_char (digit_char d) :: nat) = of_char (CHR ''-'')" by simp
    with e show False by simp
  qed
qed

lemma show_nat_chars: "c \<in> set (show_nat n) \<Longrightarrow> \<exists>d < 10. c = digit_char d"
proof (induction n rule: show_nat.induct)
  case (1 n)
  show ?case
  proof (cases "n < 10")
    case True
    with 1(2) show ?thesis by (auto simp: show_nat.simps[of n])
  next
    case False
    with 1 show ?thesis by (auto simp: show_nat.simps[of n] intro: exI[of _ "n mod 10"])
  qed
qed

lemma show_nat_nonempty: "show_nat n \<noteq> []"
  by (subst show_nat.simps) simp

lemma show_nat_no_slash: "CHR ''/'' \<notin> set (show_nat n)"
  by (metis show_nat_chars digit_char_neq(1))

lemma show_nat_clean: "clean_seg (show_nat n @ t) \<longleftrightarrow> CHR ''/'' \<notin> set t"
proof -
  obtain c cs where cs: "show_nat n = c # cs"
    using show_nat_nonempty[of n] by (cases "show_nat n") auto
  then have "c \<in> set (show_nat n)" by simp
  then obtain d where d: "d < 10" "c = digit_char d" using show_nat_chars by blast
  have c: "c \<noteq> CHR ''.''" using d digit_char_neq by simp
  show ?thesis using c show_nat_no_slash[of n] by (auto simp: clean_seg_def cs)
qed

lemma show_int_clean: "clean_seg (show_int i @ t) \<longleftrightarrow> CHR ''/'' \<notin> set t"
proof (cases "i < 0")
  case True
  then show ?thesis using show_nat_no_slash[of "nat (- i)"] by (auto simp: show_int_def clean_seg_def)
next
  case False
  then show ?thesis using show_nat_clean[of "nat i" t] by (simp add: show_int_def)
qed

lemma show_int_of_nat: "show_int (int y) = show_nat y"
  by (simp add: show_int_def)


lemma split_on_no_sep: "c \<notin> set s \<Longrightarrow> split_on c s = [s]"
  by (induction s) auto

lemma split_on_append_sep: "c \<notin> set s \<Longrightarrow> split_on c (s @ c # t) = s # split_on c t"
  by (induction s) auto

lemma split_on_nonempty: "split_on c s \<noteq> []"
  by (induction s) (auto split: list.splits)

lemma hd_split_on: "hd (split_on c s) = takeWhile (\<lambda>x. x \<noteq> c) s"
  using split_on_nonempty by (induction s) (auto split: list.splits)

lemma split_on_snoc_seg:
  "c \<notin> set f \<Longrightarrow> split_on c (d @ c # f) = split_on c d @ [f]"
proof (induction d)
  case Nil
  then show ?case by (simp add: split_on_no_sep)
next
  case (Cons x d)
  then show ?case using split_on_nonempty[of c d] by (cases "split_on c d") auto
qed

lemma split_on_pieces: "p \<in> set (split_on c s) \<Longrightarrow> c \<notin> set p"
proof (induction s arbitrary: p)
  case Nil
  then show ?case by simp
next
  case (Cons x s)
  show ?case
  proof (cases "x = c")
    case True
    then show ?thesis using Cons by auto
  next
    case False
    obtain q qs where q: "split_on c s = q # qs"
      using split_on_nonempty[of c s] by (cases "split_on c s") auto
    then have "p = x # q \<or> p \<in> set qs" using Cons.prems False by simp
    then show ?thesis using Cons.IH[of q] Cons.IH[of p] q False by auto
  qed
qed

lemma split_on_join_segs:
  "\<forall>s \<in> set (s0 # ss). CHR ''/'' \<notin> set s \<Longrightarrow>
   split_on (CHR ''/'') (s0 @ join_segs ss) = s0 # ss"
proof (induction ss arbitrary: s0)
  case Nil
  then show ?case by (simp add: join_segs_def split_on_no_sep)
next
  case (Cons a ss)
  have "split_on (CHR ''/'') (s0 @ join_segs (a # ss)) =
        s0 # split_on (CHR ''/'') (a @ join_segs ss)"
    using Cons.prems by (simp add: join_segs_def split_on_append_sep)
  also have "split_on (CHR ''/'') (a @ join_segs ss) = a # ss"
    using Cons.prems by (intro Cons.IH) simp
  finally show ?case .
qed

lemma norm_segs_clean:
  "\<forall>s \<in> set ss. s \<noteq> [] \<and> s \<noteq> ''.'' \<and> s \<noteq> ''..'' \<Longrightarrow> norm_segs ab acc ss = rev acc @ ss"
  by (induction ss arbitrary: acc) auto

lemma norm_segs_append:
  "norm_segs ab acc (xs @ ys) = norm_segs ab (rev (norm_segs ab acc xs)) ys"
  by (induction xs arbitrary: acc) (auto split: list.splits)

lemma norm_segs_snoc_clean:
  assumes "clean_seg f"
  shows "norm_segs ab acc (xs @ [f]) = norm_segs ab acc xs @ [f]"
  using assms by (simp add: norm_segs_append clean_seg_def)

lemma norm_segs_result_clean:
  assumes "\<forall>s \<in> set acc. clean_seg s" "\<forall>s \<in> set xs. CHR ''/'' \<notin> set s"
  shows "\<forall>s \<in> set (norm_segs True acc xs). clean_seg s"
  using assms
proof (induction xs arbitrary: acc)
  case Nil
  then show ?case by simp
next
  case (Cons x xs)
  note IH = Cons.IH and prems = Cons.prems
  have rest: "\<forall>s \<in> set xs. CHR ''/'' \<notin> set s" using prems(2) by simp
  show ?case
  proof (cases "x = [] \<or> x = ''.''")
    case True
    then show ?thesis using IH[OF prems(1) rest] by auto
  next
    case False
    show ?thesis
    proof (cases "x = ''..''")
      case True
      show ?thesis
      proof (cases acc)
        case Nil
        then show ?thesis using True IH[of "[]"] rest by simp
      next
        case (Cons a as)
        then have "a \<noteq> ''..''" "\<forall>s \<in> set as. clean_seg s"
          using prems(1) by (auto simp: clean_seg_def)
        then show ?thesis using True Cons IH[of as] rest by simp
      qed
    next
      case nd: False
      have "clean_seg x" using False nd prems(2) by (simp add: clean_seg_def)
      then have "\<forall>s \<in> set (x # acc). clean_seg s" using prems(1) by simp
      from IH[OF this rest] show ?thesis using False nd by simp
    qed
  qed
qed

lemma join_segs_append: "join_segs (a @ b) = join_segs a @ join_segs b"
  by (simp add: join_segs_def)

lemma path_resolve_clean:
  assumes "segs \<noteq> []" "\<forall>s \<in> set segs. clean_seg s" "\<forall>s \<in> set rel. clean_seg s" "rel \<noteq> []"
  shows "path_resolve cwd (join_segs segs) (tl (join_segs rel)) = join_segs (segs @ rel)"
proof -
  obtain r rs where rel: "rel = r # rs" using assms(4) by (cases rel) auto
  obtain g gs where segs: "segs = g # gs" using assms(1) by (cases segs) auto
  have "clean_seg r" using assms(3) rel by simp
  then obtain c cs where r: "r = c # cs" "c \<noteq> CHR ''/''"
    by (cases r) (auto simp: clean_seg_def)
  have nabs: "\<not> is_abs (tl (join_segs rel))"
    using r by (simp add: is_abs_def startsWith_def rel join_segs_def)
  have ab: "is_abs (join_segs segs)"
    by (simp add: is_abs_def startsWith_def segs join_segs_def)
  have full: "join_segs segs @ ''/'' @ tl (join_segs rel) = [] @ join_segs (segs @ rel)"
    by (simp add: join_segs_append rel join_segs_def)
  have sp: "split_on (CHR ''/'') ([] @ join_segs (segs @ rel)) = [] # (segs @ rel)"
    using assms(2,3) by (intro split_on_join_segs) (auto simp: clean_seg_def)
  have nz: "norm_segs True [] ([] # (segs @ rel)) = segs @ rel"
    using assms(2,3) norm_segs_clean[of "segs @ rel" True "[]"] by (auto simp: clean_seg_def)
  have "path_resolve cwd (join_segs segs) (tl (join_segs rel)) =
          abs_path (norm_segs True [] (split_on (CHR ''/'')
            (join_segs segs @ ''/'' @ tl (join_segs rel))))"
    using nabs ab by (simp add: path_resolve_def)
  also have "\<dots> = abs_path (segs @ rel)"
    by (simp only: full sp nz)
  also have "\<dots> = join_segs (segs @ rel)"
    using assms(1) by (simp add: abs_path_def)
  finally show ?thesis .
qed

lemma path_resolve_entry:
  assumes "clean_seg n"
  shows "\<exists>segs. path_resolve cwd dir n = join_segs (segs @ [n]) \<and> (\<forall>s \<in> set segs. clean_seg s)"
proof -
  obtain c cs where n: "n = c # cs" "c \<noteq> CHR ''/''" "CHR ''/'' \<notin> set n"
    using assms by (cases n) (auto simp: clean_seg_def)
  have nabs: "\<not> is_abs n" using n by (simp add: is_abs_def startsWith_def)
  define pre where "pre = (if is_abs dir then dir else cwd @ ''/'' @ dir)"
  have full: "(if is_abs n then n else if is_abs dir then dir @ ''/'' @ n
               else cwd @ ''/'' @ dir @ ''/'' @ n) = pre @ CHR ''/'' # n"
    using nabs by (simp add: pre_def)
  define segs where "segs = norm_segs True [] (split_on (CHR ''/'') pre)"
  have sp: "split_on (CHR ''/'') (pre @ CHR ''/'' # n) = split_on (CHR ''/'') pre @ [n]"
    using n(3) by (rule split_on_snoc_seg)
  have cl: "\<forall>s \<in> set segs. clean_seg s"
    unfolding segs_def using split_on_pieces by (intro norm_segs_result_clean) auto
  have "path_resolve cwd dir n = abs_path (segs @ [n])"
    unfolding path_resolve_def Let_def full sp segs_def
    by (simp add: norm_segs_snoc_clean[OF assms])
  then show ?thesis using cl by (auto simp: abs_path_def)
qed

lemma basename_after_slash:
  assumes "f \<noteq> []" "CHR ''/'' \<notin> set f" "X = [] \<or> last X = CHR ''/''"
  shows "basename (X @ f) = f"
proof -
  obtain y ys where f: "f = ys @ [y]" using assms(1) by (cases f rule: rev_cases) auto
  have y: "y \<noteq> CHR ''/''" using assms(2) f by auto
  have d: "dropWhile (\<lambda>c. c = CHR ''/'') (rev (X @ f)) = rev f @ rev X"
    using y by (simp add: f)
  have t: "takeWhile (\<lambda>c. c \<noteq> CHR ''/'') (rev X) = []"
    using assms(3) by (cases X rule: rev_cases) auto
  have "takeWhile (\<lambda>c. c \<noteq> CHR ''/'') (rev f @ rev X) = rev f @ takeWhile (\<lambda>c. c \<noteq> CHR ''/'') (rev X)"
    using assms(2) by (intro takeWhile_append2) auto
  then show ?thesis by (simp only: basename_def d t append_Nil2 rev_rev_ident)
qed

lemma basename_no_slash: "CHR ''/'' \<notin> set (basename p)"
  unfolding basename_def using set_takeWhileD by fastforce

lemma path_join_file:
  assumes "clean_seg f"
  shows "\<exists>X. path_join dir f = X @ f \<and> (X = [] \<or> last X = CHR ''/'')"
proof -
  have f: "f \<noteq> []" "CHR ''/'' \<notin> set f" using assms by (auto simp: clean_seg_def)
  obtain y ys where fy: "f = ys @ [y]" using f(1) by (cases f rule: rev_cases) auto
  have y: "y \<noteq> CHR ''/''" using f(2) fy by auto
  define joined where "joined = (if dir = [] then f else if f = [] then dir else dir @ ''/'' @ f)"
  have jne: "joined \<noteq> []" using f by (simp add: joined_def)
  have tr: "\<not> endsWith joined ''/''" using y by (auto simp: joined_def endsWith_def fy)
  define S where "S = (if dir = [] then [] else norm_segs (is_abs joined) [] (split_on (CHR ''/'') dir))"
  have segs: "norm_segs (is_abs joined) [] (split_on (CHR ''/'') joined) = S @ [f]"
  proof (cases "dir = []")
    case True
    then show ?thesis using assms f by (simp add: joined_def S_def split_on_no_sep clean_seg_def)
  next
    case False
    then have "split_on (CHR ''/'') joined = split_on (CHR ''/'') dir @ [f]"
      using f by (simp add: joined_def split_on_snoc_seg)
    then show ?thesis using False assms by (simp add: norm_segs_snoc_clean S_def)
  qed
  define body where "body = tl (join_segs (S @ [f]))"
  have body: "body = (if S = [] then f else tl (join_segs S) @ ''/'' @ f)"
    by (cases S) (auto simp: body_def join_segs_def)
  have bne: "body \<noteq> []" using f by (simp add: body)
  have pj: "path_join dir f = (if is_abs joined then ''/'' else []) @ body"
    unfolding path_join_def Let_def joined_def[symmetric] segs body_def[symmetric]
    using jne tr bne by simp
  show ?thesis
  proof (cases "S = []")
    case True
    then show ?thesis using pj body by (intro exI[of _ "if is_abs joined then ''/'' else []"]) simp
  next
    case False
    then show ?thesis using pj body
      by (intro exI[of _ "(if is_abs joined then ''/'' else []) @ tl (join_segs S) @ ''/''"]) simp
  qed
qed

lemma basename_path_join:
  assumes "clean_seg f"
  shows "basename (path_join dir f) = f"
proof -
  obtain X where "path_join dir f = X @ f" "X = [] \<or> last X = CHR ''/''"
    using path_join_file[OF assms] by blast
  then show ?thesis using assms basename_after_slash[of f X] by (simp add: clean_seg_def)
qed

lemma mbtiles_suffix_clean:
  assumes "endsWith s ''.mbtiles''" "CHR ''/'' \<notin> set s"
  shows "clean_seg s"
proof -
  have "length s \<ge> 8" using assms(1) by (simp add: endsWith_def)
  then have "s \<noteq> [] \<and> s \<noteq> ''.'' \<and> s \<noteq> ''..''" by auto
  then show ?thesis using assms(2) by (simp add: clean_seg_def)
qed

lemma enforce_clean:
  assumes "CHR ''/'' \<notin> set s"
  shows "clean_seg (if \<not> endsWith s ''.mbtiles'' then s @ ''.mbtiles'' else s)"
proof (cases "endsWith s ''.mbtiles''")
  case True
  then show ?thesis using assms by (simp add: mbtiles_suffix_clean)
next
  case False
  have "endsWith (s @ ''.mbtiles'') ''.mbtiles''" by (simp add: endsWith_def)
  moreover have "CHR ''/'' \<notin> set (s @ ''.mbtiles'')" using assms by simp
  ultimately have "clean_seg (s @ ''.mbtiles'')" by (rule mbtiles_suffix_clean)
  then show ?thesis using False by simp
qed

section \<open>Facts about lists\<close>

lemma filter_update_same:
  "i < length xs \<Longrightarrow> P y = P (xs ! i) \<Longrightarrow> length (filter P (xs[i := y])) = length (filter P xs)"
proof (induction xs arbitrary: i)
  case Nil
  then show ?case by simp
next
  case (Cons x xs)
  then show ?case by (cases i) auto
qed

lemma filter_update_inc:
  "i < length xs \<Longrightarrow> \<not> P (xs ! i) \<Longrightarrow> P y \<Longrightarrow>
   length (filter P (xs[i := y])) = Suc (length (filter P xs))"
proof (induction xs arbitrary: i)
  case Nil
  then show ?case by simp
next
  case (Cons x xs)
  then show ?case by (cases i) auto
qed

lemma filter_update_dec:
  "i < length xs \<Longrightarrow> P (xs ! i) \<Longrightarrow> \<not> P y \<Longrightarrow>
   Suc (length (filter P (xs[i := y]))) = length (filter P xs)"
proof (induction xs arbitrary: i)
  case Nil
  then show ?case by simp
next
  case (Cons x xs)
  then show ?case by (cases i) auto
qed

lemma filter_length_mono:
  "\<forall>x \<in> set xs. P x \<longrightarrow> Q x \<Longrightarrow> length (filter P xs) \<le> length (filter Q xs)"
proof (induction xs)
  case Nil
  then show ?case by simp
next
  case (Cons x xs)
  then show ?case by auto
qed

lemma set_update_ok:
  assumes "\<forall>j \<in> set xs. P j" "P y"
  shows "\<forall>j \<in> set (xs[i := y]). P j"
  using assms set_update_subset_insert[of xs i y] by auto

section \<open>Properties of the charts loader\<close>

lemma openMbtilesFile_bounds:
  "openMbtilesFile pint file filename r = Some c \<Longrightarrow> bounds c \<noteq> None \<and> \<not> flipY c"
  by (auto simp: openMbtilesFile_def Let_def split: mb_result.splits if_splits option.splits)

lemma mbtiles_chart_format:
  "openMbtilesFile pint file filename r = Some c \<Longrightarrow> fileFormat c = ''mbtiles''"
  by (auto simp: openMbtilesFile_def Let_def split: mb_result.splits if_splits option.splits)

lemma directory_chart_format:
  "directoryToMapInfo pint pf file ident tms xyz = Some c \<Longrightarrow>
   fileFormat c = ''directory'' \<and> truthy (format c)"
  by (auto simp: directoryToMapInfo_def split: option.splits if_splits)

lemma directory_chart_path:
  assumes "directoryToMapInfo pint pf (path_resolve cwd dir n) n tms xyz = Some c" "clean_seg n"
  shows "fileFormat c = ''directory'' \<and>
         (\<exists>segs. segs \<noteq> [] \<and> (\<forall>s \<in> set segs. clean_seg s) \<and> filePath c = join_segs segs)"
proof -
  obtain segs where s: "path_resolve cwd dir n = join_segs (segs @ [n])" "\<forall>s \<in> set segs. clean_seg s"
    using path_resolve_entry[OF assms(2)] by blast
  have f: "fileFormat c = ''directory''" "filePath c = path_resolve cwd dir n"
    using assms(1) by (auto simp: directoryToMapInfo_def split: option.splits if_splits)
  show ?thesis
    using f s assms(2) by (intro conjI exI[of _ "segs @ [n]"]) simp_all
qed

lemma scan_charts:
  shows "findChartsRecursive pint pf cwd d es = Some cs \<Longrightarrow> Some c \<in> set cs \<Longrightarrow> chart_checked c"
    and "scanFiles pint pf cwd d fs = Some cs \<Longrightarrow> Some c \<in> set cs \<Longrightarrow> chart_checked c"
    and "scanFile pint pf cwd d f = Some cs \<Longrightarrow> Some c \<in> set cs \<Longrightarrow> chart_checked c"
proof (induction pint pf cwd d es and pint pf cwd d fs and pint pf cwd d f
    arbitrary: cs c and cs c and cs c rule: findChartsRecursive_scanFiles_scanFile.induct)
  case (1 pint pf cwd currentDir)
  then show ?case by simp
next
  case (2 pint pf cwd currentDir files)
  then show ?case by simp
next
  case (3 pint pf cwd currentDir)
  then show ?case by simp
next
  case (4 pint pf cwd currentDir fl fls)
  then show ?case by (auto split: option.splits)
next
  case (5 pint pf cwd currentDir n m)
  then show ?case
    using openMbtilesFile_bounds mbtiles_chart_format
    by (auto simp: chart_checked_def split: if_splits)
next
  case (6 pint pf cwd currentDir n m tms xyz cs)
  then show ?case
    using openMbtilesFile_bounds mbtiles_chart_format directory_chart_format
    by (auto simp: chart_checked_def split: if_splits option.splits)
qed

lemma fold_registry:
  "fold (\<lambda>c reg. reg(chart_identifier c \<mapsto> c)) cs reg0 k = Some c \<Longrightarrow>
   c \<in> set cs \<or> reg0 k = Some c"
proof (induction cs arbitrary: reg0)
  case Nil
  then show ?case by simp
next
  case (Cons a cs)
  from Cons.prems have "fold (\<lambda>c reg. reg(chart_identifier c \<mapsto> c)) cs (reg0(chart_identifier a \<mapsto> a)) k = Some c"
    unfolding fold_Cons comp_apply .
  from Cons.IH[OF this] show ?case by (auto split: if_splits)
qed

lemma registry_charts:
  assumes "findCharts pint pf cwd chartBaseDir files = Some reg" "reg k = Some c"
  shows "chart_checked c"
proof -
  from assms(1) obtain result where r: "findChartsRecursive pint pf cwd chartBaseDir files = Some result"
    and reg: "reg = fold (\<lambda>c reg. reg(chart_identifier c \<mapsto> c)) (List.map_filter id result) Map.empty"
    by (auto simp: findCharts_def split: option.splits)
  have "c \<in> set (List.map_filter id result)"
    using fold_registry[of "List.map_filter id result" Map.empty k c] assms(2) reg by simp
  then have "Some c \<in> set result" by (auto simp: List.map_filter_def)
  then show ?thesis using scan_charts(1)[OF r] by blast
qed

lemma parseBounds_four_array: "length xs = 4 \<Longrightarrow> parseBounds pf (Some (JArr xs)) = Some (JArr xs)"
  by (simp add: parseBounds_def)

lemma parseBounds_other_array: "length xs \<noteq> 4 \<Longrightarrow> parseBounds pf (Some (JArr xs)) = None"
  by (simp add: parseBounds_def)

lemma parseBounds_example:
  "parseBounds pf (Some (JStr ''1.0, 2.0, 3.0, 4.0'')) =
     Some (JArr [JNum (pf (Some (JStr ''1.0''))), JNum (pf (Some (JStr ''2.0''))),
                 JNum (pf (Some (JStr ''3.0''))), JNum (pf (Some (JStr ''4.0'')))])"
  by (simp add: parseBounds_def trim_def is_space_def)

text \<open>
  Claim C8. The claim: a \<open>bounds\<close> string of four comma-separated numbers parses to the
  four trimmed numbers, an array of four elements is kept, and every other shape,
  strings without four numbers among them, counts as absent. The array branch of
  \<open>parseBounds\<close> tests the length, the string branch does not: the string \<open>1,2\<close> is
  not absent, it parses to an array of two numbers.
\<close>

theorem parseBounds_two_numbers_kept:
  "parseBounds pf (Some (JStr ''1,2'')) =
     Some (JArr [JNum (pf (Some (JStr ''1''))), JNum (pf (Some (JStr ''2'')))])"
  by (simp add: parseBounds_def trim_def is_space_def)

text \<open>
  Claim C1. The claim: a source without bounds is never in the registry, whatever its
  format. \<open>openMbtilesFile\<close> drops a database without bounds
  (\<open>openMbtilesFile_bounds\<close>); \<open>directoryToMapInfo\<close> tests the format only. A
  directory \<open>chart1\<close> whose \<open>metadata.json\<close> is \<open>{"format": "png"}\<close>, and a directory
  \<open>tms1\<close> whose \<open>tilemapresource.xml\<close> has a tile format and no bounding box, are
  both in the registry, with no bounds.
\<close>

theorem findCharts_keeps_directory_without_bounds:
  "(\<exists>reg c. findCharts pint pf ''/'' ''/charts''
       (Some [EDir ''chart1'' MbError None (Some (Some (JObj [(''format'', JStr ''png'')]))) (Some [])])
       = Some reg
     \<and> reg ''chart1'' = Some c \<and> bounds c = None \<and> format c = Some (JStr ''png''))
   \<and> (\<exists>reg c. findCharts pint pf ''/'' ''/charts''
       (Some [EDir ''tms1'' MbError
                (Some (Some (JObj [(''TileMap'',
                   JObj [(''TileFormat'', JArr [JObj [(''$'', JObj [(''extension'', JStr ''png'')])]])])])))
                None (Some [])])
       = Some reg
     \<and> reg ''tms1'' = Some c \<and> bounds c = None \<and> format c = Some (JStr ''png''))"
  by (simp add: findCharts_def isMbtilesName_def endsWith_def startsWith_def directoryToMapInfo_def
      loadInfo_def parseMetadataJson_def parseTilemapResource_def parseBounds_def
      List.map_filter_def show_nat.simps digit_char_numeral js_or_def)

lemma extremum_not_NaN:
  assumes "\<And>c. \<not> cmp NaN c" "r \<noteq> Some NaN"
  shows "extremum cmp r xs \<noteq> Some NaN"
  using assms(2)
proof (induction xs arbitrary: r)
  case Nil
  then show ?case by simp
next
  case (Cons x xs)
  show ?case
  proof (cases r)
    case None
    then show ?thesis using Cons.IH[of "if x = NaN then None else Some x"] by simp
  next
    case (Some c)
    have "(if cmp x c then Some x else Some c) \<noteq> Some NaN"
      using assms(1)[of c] Some Cons.prems by auto
    then show ?thesis using Cons.IH Some by simp
  qed
qed

lemma lodash_min_not_NaN: "lodash_min xs \<noteq> Some NaN"
  unfolding lodash_min_def by (rule extremum_not_NaN) simp_all

lemma lodash_max_not_NaN: "lodash_max xs \<noteq> Some NaN"
proof -
  have "\<And>c. \<not> num_lt c NaN" by (case_tac c) simp_all
  then show ?thesis unfolding lodash_max_def by (intro extremum_not_NaN) simp_all
qed

lemma num_or_not_NaN: "num_or a (Fin 250000) \<noteq> NaN"
  by (simp add: num_or_def)

text \<open>
  Claim C9, as stated: in every chart of every parser \<open>minzoom\<close>, \<open>maxzoom\<close> and
  \<open>scale\<close> are the parsed integer when it is finite and undefined otherwise, so that
  no field of a chart is NaN. The scale of a \<open>metadata.json\<close> without a scale is
  250000, not undefined; and \<open>openMbtilesFile\<close> copies \<open>minzoom\<close> from the metadata as
  it is, NaN included.
\<close>

theorem numeric_fields_counterexample:
  "map_option scale
     (parseMetadataJson parseInt_basic (\<lambda>v. NaN)
        (JObj [(''format'', JStr ''png''),
               (''bounds'', JArr [JNum (Fin 1), JNum (Fin 2), JNum (Fin 3), JNum (Fin 4)])]))
     = Some (Fin 250000)
   \<and> map_option minzoom
     (openMbtilesFile parseInt_basic ''/charts/a.mbtiles'' ''a.mbtiles''
        (MbInfo (Some (JObj [(''bounds'', JArr [JNum (Fin 1), JNum (Fin 2), JNum (Fin 3), JNum (Fin 4)]),
                             (''minzoom'', JNum NaN)]))))
     = Some (Some (JNum NaN))"
  by (simp add: parseMetadataJson_def openMbtilesFile_def parseInt_basic_def num_or_def Let_def)

lemma scale_tms:
  "parseTilemapResource pint pf parsed = Some c' \<Longrightarrow>
     scale c' =
       (let scl = pint (lodash_get (js_prop parsed ''TileMap'') [''Metadata'', ''0'', ''$'', ''scale''])
        in if scl = NaN \<or> scl = Fin 0 then Fin 250000 else scl)"
  by (auto simp: parseTilemapResource_def Let_def num_or_def split: if_splits)

lemma scale_mb:
  "openMbtilesFile pint fpath filename (MbInfo metadata) = Some c'' \<Longrightarrow>
     scale c'' =
       (let scl = pint (lodash_get metadata [''scale''])
        in if scl = NaN \<or> scl = Fin 0 then Fin 250000 else scl)"
  by (auto simp: openMbtilesFile_def Let_def num_or_def split: if_splits option.splits)

text \<open>
  Claim C9, amended. In a chart of the \<open>metadata.json\<close> parser \<open>minzoom\<close> and
  \<open>maxzoom\<close> are the parsed integer when it is finite and undefined otherwise. In a
  chart of the \<open>tilemapresource.xml\<close> parser \<open>minzoom\<close> and \<open>maxzoom\<close> are never
  NaN. In a chart of any of the three parsers the scale is the parsed integer unless
  that is NaN or 0, when it is 250000: what is parsed is the \<open>scale\<close> of
  \<open>metadata.json\<close>, the \<open>scale\<close> attribute of the first \<open>Metadata\<close> element of
  \<open>tilemapresource.xml\<close>, the \<open>scale\<close> of the metadata of the database. So the scale
  is never NaN.
\<close>

theorem numeric_fields_amended:
  "(parseMetadataJson pint pf metadata = Some c \<longrightarrow>
      minzoom c = (if isFinite (pint (js_prop metadata ''minzoom''))
                   then Some (JNum (pint (js_prop metadata ''minzoom''))) else None)
    \<and> maxzoom c = (if isFinite (pint (js_prop metadata ''maxzoom''))
                   then Some (JNum (pint (js_prop metadata ''maxzoom''))) else None)
    \<and> scale c = (if pint (js_prop metadata ''scale'') = NaN \<or> pint (js_prop metadata ''scale'') = Fin 0
                 then Fin 250000 else pint (js_prop metadata ''scale'')))
   \<and> (parseTilemapResource pint pf parsed = Some c' \<longrightarrow>
      minzoom c' \<noteq> Some (JNum NaN) \<and> maxzoom c' \<noteq> Some (JNum NaN) \<and> scale c' \<noteq> NaN
    \<and> scale c' =
        (if pint (lodash_get (js_prop parsed ''TileMap'') [''Metadata'', ''0'', ''$'', ''scale'']) = NaN \<or>
            pint (lodash_get (js_prop parsed ''TileMap'') [''Metadata'', ''0'', ''$'', ''scale'']) = Fin 0
         then Fin 250000
         else pint (lodash_get (js_prop parsed ''TileMap'') [''Metadata'', ''0'', ''$'', ''scale''])))
   \<and> (openMbtilesFile pint fpath filename r = Some c'' \<longrightarrow>
      scale c'' \<noteq> NaN
    \<and> (case r of
          MbError \<Rightarrow> False
        | MbInfo md \<Rightarrow>
            scale c'' =
              (if pint (lodash_get md [''scale'']) = NaN \<or> pint (lodash_get md [''scale'']) = Fin 0
               then Fin 250000 else pint (lodash_get md [''scale'']))))"
proof -
  have 1: "parseMetadataJson pint pf metadata = Some c \<longrightarrow>
      minzoom c = (if isFinite (pint (js_prop metadata ''minzoom''))
                   then Some (JNum (pint (js_prop metadata ''minzoom''))) else None)
    \<and> maxzoom c = (if isFinite (pint (js_prop metadata ''maxzoom''))
                   then Some (JNum (pint (js_prop metadata ''maxzoom''))) else None)
    \<and> scale c = (if pint (js_prop metadata ''scale'') = NaN \<or> pint (js_prop metadata ''scale'') = Fin 0
                 then Fin 250000 else pint (js_prop metadata ''scale''))"
    by (auto simp: parseMetadataJson_def parseIntIfNotUndefined_def num_or_def Let_def split: if_splits)
  have 2: "parseTilemapResource pint pf parsed = Some c' \<longrightarrow>
      minzoom c' \<noteq> Some (JNum NaN) \<and> maxzoom c' \<noteq> Some (JNum NaN) \<and> scale c' \<noteq> NaN"
    using lodash_min_not_NaN lodash_max_not_NaN
    by (auto simp: parseTilemapResource_def Let_def num_or_not_NaN split: if_splits)
  have s2: "parseTilemapResource pint pf parsed = Some c' \<longrightarrow>
      scale c' =
        (if pint (lodash_get (js_prop parsed ''TileMap'') [''Metadata'', ''0'', ''$'', ''scale'']) = NaN \<or>
            pint (lodash_get (js_prop parsed ''TileMap'') [''Metadata'', ''0'', ''$'', ''scale'']) = Fin 0
         then Fin 250000
         else pint (lodash_get (js_prop parsed ''TileMap'') [''Metadata'', ''0'', ''$'', ''scale'']))"
    using scale_tms[of pint pf parsed c'] by (simp add: Let_def)
  have 3: "openMbtilesFile pint fpath filename r = Some c'' \<longrightarrow> scale c'' \<noteq> NaN"
    by (auto simp: openMbtilesFile_def Let_def num_or_not_NaN split: mb_result.splits if_splits option.splits)
  have s3: "openMbtilesFile pint fpath filename r = Some c'' \<longrightarrow>
      (case r of
          MbError \<Rightarrow> False
        | MbInfo md \<Rightarrow>
            scale c'' =
              (if pint (lodash_get md [''scale'']) = NaN \<or> pint (lodash_get md [''scale'']) = Fin 0
               then Fin 250000 else pint (lodash_get md [''scale''])))"
  proof (cases r)
    case MbError
    then show ?thesis by (simp add: openMbtilesFile_def)
  next
    case (MbInfo md)
    then show ?thesis using scale_mb[of pint fpath filename md c''] by (simp add: Let_def)
  qed
  show ?thesis using 1 2 s2 3 s3 by blast
qed

theorem numeric_fields_amended_witness:
  "map_option minzoom
     (parseMetadataJson parseInt_basic (\<lambda>v. NaN)
        (JObj [(''format'', JStr ''png''), (''minzoom'', JStr ''3''), (''maxzoom'', JStr ''x'')]))
     = Some (Some (JNum (Fin 3)))
   \<and> map_option maxzoom
     (parseMetadataJson parseInt_basic (\<lambda>v. NaN)
        (JObj [(''format'', JStr ''png''), (''minzoom'', JStr ''3''), (''maxzoom'', JStr ''x'')]))
     = Some None
   \<and> map_option scale
     (parseTilemapResource parseInt_basic (\<lambda>v. NaN)
        (JObj [(''TileMap'', JObj [(''TileFormat'', JArr [JObj [(''$'', JObj [(''extension'', JStr ''png'')])]])])]))
     = Some (Fin 250000)
   \<and> map_option scale
     (openMbtilesFile parseInt_basic ''/charts/a.mbtiles'' ''a.mbtiles''
        (MbInfo (Some (JObj [(''bounds'', JArr [JNum (Fin 1), JNum (Fin 2), JNum (Fin 3), JNum (Fin 4)]),
                             (''scale'', JStr ''50000'')]))))
     = Some (Fin 50000)"
proof -
  define md where "md = JObj [(''format'', JStr ''png''), (''minzoom'', JStr ''3''), (''maxzoom'', JStr ''x'')]"
  define tm where "tm = JObj [(''TileMap'', JObj [(''TileFormat'', JArr [JObj [(''$'', JObj [(''extension'', JStr ''png'')])]])])]"
  define mm where "mm = Some (JObj [(''bounds'', JArr [JNum (Fin 1), JNum (Fin 2), JNum (Fin 3), JNum (Fin 4)]),
                             (''scale'', JStr ''50000'')])"
  obtain c where c: "parseMetadataJson parseInt_basic (\<lambda>v. NaN) md = Some c"
    by (simp add: parseMetadataJson_def md_def)
  obtain c' where c': "parseTilemapResource parseInt_basic (\<lambda>v. NaN) tm = Some c'"
    by (simp add: parseTilemapResource_def tm_def Let_def)
  obtain c'' where c'': "openMbtilesFile parseInt_basic ''/charts/a.mbtiles'' ''a.mbtiles'' (MbInfo mm) = Some c''"
    by (simp add: openMbtilesFile_def mm_def Let_def)
  have p3: "parseInt_basic (js_prop md ''minzoom'') = Fin 3"
    by (simp add: md_def parseInt_basic_def parse_decimal_def is_space_def is_digit_def read_nat_def)
  have px: "parseInt_basic (js_prop md ''maxzoom'') = NaN"
    by (simp add: md_def parseInt_basic_def parse_decimal_def is_space_def is_digit_def)
  have pt: "parseInt_basic (lodash_get (js_prop tm ''TileMap'') [''Metadata'', ''0'', ''$'', ''scale'']) = NaN"
    by (simp add: tm_def parseInt_basic_def)
  have pm: "parseInt_basic (lodash_get mm [''scale'']) = Fin 50000"
    by (simp add: mm_def parseInt_basic_def parse_decimal_def is_space_def is_digit_def read_nat_def)
  show ?thesis
    using numeric_fields_amended [where pint = parseInt_basic and pf = "\<lambda>v. NaN" and metadata = md
        and c = c and parsed = tm and c' = c' and fpath = "''/charts/a.mbtiles''"
        and filename = "''a.mbtiles''" and r = "MbInfo mm" and c'' = c''] c c' c''
    unfolding md_def[symmetric] tm_def[symmetric] mm_def[symmetric]
    by (simp add: p3 px pt pm isFinite_def)
qed

section \<open>Properties of the tile resolver\<close>

lemma tileFile_clean:
  assumes "filePath c = join_segs segs" "segs \<noteq> []" "\<forall>s \<in> set segs. clean_seg s"
    and "format c = Some (JStr f)" "CHR ''/'' \<notin> set f"
  shows "tileFile str cwd c z x y =
           filePath c @ ''/'' @ show_nat z @ ''/'' @ show_nat x @ ''/'' @
           show_int (if flipY c then 2 ^ z - 1 - int y else int y) @ ''.'' @ f"
proof -
  define row where "row = show_int (if flipY c then 2 ^ z - 1 - int y else int y)"
  define rel where "rel = [show_nat z, show_nat x, row @ ''.'' @ f]"
  have ne: "filePath c \<noteq> []" using assms(1,2) by (cases segs) (auto simp: join_segs_def)
  have cl: "\<forall>s \<in> set rel. clean_seg s"
    using show_nat_clean[of z "[]"] show_nat_clean[of x "[]"]
      show_int_clean[of "if flipY c then 2 ^ z - 1 - int y else int y" "''.'' @ f"] assms(5)
    by (simp add: rel_def row_def)
  have tl: "tl (join_segs rel) = show_nat z @ ''/'' @ show_nat x @ ''/'' @ row @ ''.'' @ f"
    by (simp add: join_segs_def rel_def)
  have row: "(if flipY c then show_int (2 ^ z - 1 - int y) else show_nat y) = row"
    by (simp add: row_def show_int_of_nat)
  have "tileFile str cwd c z x y =
          path_resolve cwd (filePath c)
            (show_nat z @ ''/'' @ show_nat x @ ''/'' @ row @ ''.'' @ format_str str (format c))"
    using ne by (simp only: tileFile_def Let_def row) simp
  also have "\<dots> = path_resolve cwd (join_segs segs) (tl (join_segs rel))"
    by (simp only: tl assms(1,4) format_str_def option.case jsval.case)
  also have "\<dots> = join_segs (segs @ rel)"
    using assms(2,3) cl by (intro path_resolve_clean) (simp_all add: rel_def)
  also have "\<dots> = filePath c @ ''/'' @ tl (join_segs rel)"
    by (simp add: join_segs_append assms(1) join_segs_def rel_def)
  finally show ?thesis by (simp only: tl row_def)
qed

text \<open>
  Claim C2. For a directory chart whose path is an absolute path of plain segments and
  whose format is a string without a slash, and for tile coordinates in the range where
  JavaScript's numbers are exact, \<open>serveTileFromFilesystem\<close> reads the file
  \<open>filePath/z/x/row.format\<close>, where \<open>row\<close> is \<open>y\<close>, or \<open>2 ^ z - 1 - y\<close> when
  \<open>_flipY\<close> is set; when that file is absent the answer is status 404, not an error.
\<close>

theorem serveTile_directory_row:
  assumes "filePath c = join_segs segs" "segs \<noteq> []" "\<forall>s \<in> set segs. clean_seg s"
    and "format c = Some (JStr f)" "CHR ''/'' \<notin> set f"
    and "z \<le> 52" "x < 2 ^ 53" "y < 2 ^ 53"
  shows "tileFile str cwd c z x y =
           filePath c @ ''/'' @ show_nat z @ ''/'' @ show_nat x @ ''/'' @
           show_int (if flipY c then 2 ^ z - 1 - int y else int y) @ ''.'' @ f
         \<and> serveTileFromFilesystem str cwd fs c z x y =
           (case fs (tileFile str cwd c z x y) of
              Content bytes \<Rightarrow> SentFile (tileFile str cwd c z x y) bytes
            | Absent \<Rightarrow> Status 404
            | Failure code \<Rightarrow> Thrown code)"
proof -
  have fl: "tileFile str cwd c z x y =
           filePath c @ ''/'' @ show_nat z @ ''/'' @ show_nat x @ ''/'' @
           show_int (if flipY c then 2 ^ z - 1 - int y else int y) @ ''.'' @ f"
    using assms(1-5) by (rule tileFile_clean)
  have "tileFile str cwd c z x y \<noteq> []"
    using assms(1,2) by (subst fl) (cases segs, auto simp: join_segs_def)
  then have "serveTileFromFilesystem str cwd fs c z x y =
           (case fs (tileFile str cwd c z x y) of
              Content bytes \<Rightarrow> SentFile (tileFile str cwd c z x y) bytes
            | Absent \<Rightarrow> Status 404
            | Failure code \<Rightarrow> Thrown code)"
    by (simp add: serveTileFromFilesystem_def Let_def)
  with fl show ?thesis by simp
qed

theorem serveTile_directory_row_witness:
  "tileFile (\<lambda>v. ''undefined'') ''/'' tms_chart_example 3 2 1 = ''/charts/tms1/3/2/6.png''
   \<and> serveTileFromFilesystem (\<lambda>v. ''undefined'') ''/'' (\<lambda>p. Absent) tms_chart_example 3 2 1
       = Status 404"
  using serveTile_directory_row [where c = tms_chart_example and segs = "[''charts'', ''tms1'']"
      and f = "''png''" and z = 3 and x = 2 and y = 1 and str = "\<lambda>v. ''undefined''"
      and cwd = "''/''" and fs = "\<lambda>p. Absent"]
  by (simp add: tms_chart_example_def join_segs_def clean_seg_def show_nat.simps
      digit_char_numeral show_int_def)

section \<open>Properties of one download\<close>

lemma run_job_Nil: "run_job [] j = j"
  by (simp add: run_job_def)

lemma run_job_Cons: "run_job ((t, e) # es) j = run_job es (job_event t e j)"
  by (simp add: run_job_def)

lemma run_job_append: "run_job (xs @ ys) j = run_job ys (run_job xs j)"
  by (simp add: run_job_def)

lemma on_data_keeps:
  "phase (on_data n j) = phase j" "settled (on_data n j) = settled j"
  "sourceDone (on_data n j) = sourceDone j" "targetFiles (on_data n j) = targetFiles j"
  "extractedFiles (on_data n j) = extractedFiles j" "targetPath (on_data n j) = targetPath j"
  "status (on_data n j) = status j" "streams (on_data n j) = streams j"
  "opened (on_data n j) = opened j" "drained (on_data n j) = drained j"
  "awaitingAll (on_data n j) = awaitingAll j" "unlinked (on_data n j) = unlinked j"
  "targetDir (on_data n j) = targetDir j" "jerror (on_data n j) = jerror j"
  by (simp_all add: on_data_def Let_def split: option.splits)

lemma resolve_props:
  "phase (resolve t j) = phase j" "settled (resolve t j)"
  "status (resolve t j) = (if settled j then status j else Completed)"
  by (simp_all add: resolve_def)

lemma reject_props:
  "phase (reject t m j) = phase j" "settled (reject t m j)"
  "status (reject t m j) = (if settled j then status j else Failed)"
  by (simp_all add: reject_def)

lemma after_all_props:
  "phase (after_all t j) = phase j"
  "settled j \<Longrightarrow> settled (after_all t j)"
  "status (after_all t j) = status j \<and> settled (after_all t j) = settled j \<or>
   settled (after_all t j) \<and> (status (after_all t j) = Completed \<or> status (after_all t j) = Failed
      \<or> status (after_all t j) = status j \<and> settled j)"
  by (auto simp: after_all_def resolve_def reject_def split: option.splits)

lemma cancel_props:
  "phase (cancel t j) = phase j" "settled (cancel t j) = settled j"
  "status (cancel t j) = (if status j = Completed then Completed else Failed)"
  by (simp_all add: cancel_def)

lemma on_response_props:
  assumes "phase j = Requesting"
  shows "phase (on_response t code loc cty clen j) \<noteq> NotStarted"
    and "settled j \<Longrightarrow> settled (on_response t code loc cty clen j)"
    and "status (on_response t code loc cty clen j) \<noteq> Queued \<or> status j = Queued"
  using assms
  by (auto simp: on_response_def reject_def Let_def split: option.splits)

lemma on_entry_props:
  "phase (on_entry p f j) = phase j" "settled (on_entry p f j) = settled j"
  "status (on_entry p f j) = status j"
  by (simp_all add: on_entry_def Let_def)

lemma chartName_event: "chartName (job_event t e j) = chartName j"
  by (cases e)
     (auto simp: job_event_def on_response_def reject_def resolve_def after_all_def on_data_def
        on_entry_def cancel_def Let_def split: option.splits)

lemma followed_iff:
  "followed code loc = Some l \<longleftrightarrow> (code = 301 \<or> code = 302) \<and> loc = Some l \<and> l \<noteq> []"
  by (auto simp: followed_def split: option.splits)

lemma response_followed:
  assumes "phase j = Requesting" "followed code loc = Some l"
  shows "job_event t (Response code loc cty clen) j = j \<lparr> url := l \<rparr>"
  using assms by (simp add: job_event_def on_response_def)

lemma response_not_ok_fails:
  assumes "phase j = Requesting" "\<not> settled j" "followed code loc = None" "code \<noteq> 200"
  shows "job_event t (Response code loc cty clen) j =
           j \<lparr> settled := True, status := Failed, jerror := Some (''HTTP '' @ show_nat code),
               completedAt := Some t, phase := Done \<rparr>"
  using assms by (simp add: job_event_def on_response_def reject_def)

text \<open>
  Claim C4. The claim: every redirect response with a \<open>Location\<close> header rewrites the
  job's URL and the fetch is retried; every other response that is not 2xx fails the
  job with the status code in its error. The callback follows 301 and 302 only. A job
  that receives 307 with a \<open>Location\<close> header keeps its URL and fails with
  \<open>HTTP 307\<close>.
\<close>

theorem redirect_307_not_followed:
  "run_job [(2, Response 307 (Some ''https://mirror/a.zip'') None None)]
     (start_job 1 (new_job 0 ''dl_1'' ''https://host/a.zip'' ''/charts'' []))
   = (start_job 1 (new_job 0 ''dl_1'' ''https://host/a.zip'' ''/charts'' []))
       \<lparr> status := Failed, completedAt := Some 2, jerror := Some ''HTTP 307'',
         phase := Done, settled := True \<rparr>"
  by (simp add: run_job_def job_event_def on_response_def followed_def reject_def start_job_def
      new_job_def show_nat.simps digit_char_numeral)

section \<open>Properties of the file name of a direct download\<close>





lemma directFileName_clean:
  assumes "CHR ''/'' \<notin> set (trim nm)"
  shows "clean_seg (directFileName nm u)"
proof -
  have "set (takeWhile (\<lambda>x. x \<noteq> CHR ''?'') (basename u)) \<subseteq> set (basename u)"
    using set_takeWhileD by fastforce
  then have "CHR ''/'' \<notin> set (hd (split_on (CHR ''?'') (basename u)))"
    using basename_no_slash[of u] by (auto simp: hd_split_on)
  then show ?thesis
    using assms enforce_clean[of "trim nm"] enforce_clean[of "hd (split_on (CHR ''?'') (basename u))"]
    by (simp add: directFileName_def Let_def)
qed









section \<open>Properties of an archive without chart files\<close>

lemma run_redirects:
  assumes "\<forall>e \<in> set reds. followed_redirect (snd e)" "phase j = Requesting"
  shows "\<exists>u'. run_job reds j = j \<lparr> url := u' \<rparr>"
  using assms
proof (induction reds arbitrary: j)
  case Nil
  show ?case by (rule exI[of _ "url j"]) (simp add: run_job_Nil)
next
  case (Cons r reds)
  obtain t e where r: "r = (t, e)" by (cases r)
  from Cons.prems(1) r have "followed_redirect e" by simp
  then obtain code location cty clen l where
    e: "e = Response code location cty clen" and l: "followed code location = Some l"
    by (auto simp: followed_redirect_def split: jevent.splits)
  have st: "job_event t e j = j \<lparr> url := l \<rparr>"
    using Cons.prems(2) l by (simp add: job_event_def e on_response_def)
  have "phase (j \<lparr> url := l \<rparr>) = Requesting" using Cons.prems(2) by simp
  from Cons.IH[OF _ this] Cons.prems(1)
  obtain u' where "run_job reds (j \<lparr> url := l \<rparr>) = j \<lparr> url := l, url := u' \<rparr>" by auto
  then show ?case by (intro exI[of _ u']) (simp add: r run_job_Cons st)
qed

lemma unmatched_step:
  assumes "zip_idle j" "unmatched e"
  shows "zip_idle (job_event t e j)"
    and "drained (job_event t e j) = drained j @ entry_paths [(t, e)]"
  using assms
  by (cases e; simp add: unmatched_def zip_idle_def job_event_def on_data_keeps on_entry_def
        cancel_def entry_paths_def)+

lemma run_unmatched:
  assumes "zip_idle j" "\<forall>e \<in> set evs. unmatched (snd e)"
  shows "zip_idle (run_job evs j) \<and> drained (run_job evs j) = drained j @ entry_paths evs"
  using assms
proof (induction evs arbitrary: j)
  case Nil
  then show ?case by (simp add: run_job_Nil entry_paths_def)
next
  case (Cons a evs)
  obtain t e where a: "a = (t, e)" by (cases a)
  have u: "unmatched e" using Cons.prems(2) a by simp
  note s = unmatched_step[OF Cons.prems(1) u, of t]
  from Cons.IH[OF s(1)] Cons.prems(2)
  show ?case by (simp add: a run_job_Cons s(2) entry_paths_def)
qed

lemma zip_finish_idle:
  assumes "zip_idle j"
  shows "job_event t ZipFinish j =
           j \<lparr> sourceDone := True, awaitingAll := False, settled := True, status := Failed,
               jerror := Some ''No .mbtiles files found in archive'', completedAt := Some t \<rparr>"
  using assms
  by (simp add: zip_idle_def job_event_def after_all_def first_rejected_def reject_def)

text \<open>
  Claim C6. A job is started; its requests are redirected any number of times; the
  final response has status 200 and is an archive (its content type mentions zip, or the
  URL ends in \<open>.zip\<close>); chunks arrive, entries are met of which none is a regular file
  with a name ending in \<open>.mbtiles\<close>, the job may be cancelled meanwhile; the archive
  parser finishes. Then the job has status failed with the error
  \<open>No .mbtiles files found in archive\<close>, \<open>extractedFiles\<close> and \<open>targetFiles\<close> are
  empty, no write stream was opened, and every entry was drained.
\<close>

theorem zip_without_charts_fails:
  assumes "\<forall>e \<in> set reds. followed_redirect (snd e)"
    and "\<forall>e \<in> set evs. unmatched (snd e)"
    and "str_includes (case cty of None \<Rightarrow> [] | Some c \<Rightarrow> c) ''zip'' \<or>
         endsWith (url (run_job reds (start_job t0 (new_job t i u dir nm)))) ''.zip''"
  shows "status (run_job (reds @ [(t1, Response 200 loc cty clen)] @ evs @ [(t2, ZipFinish)])
           (start_job t0 (new_job t i u dir nm))) = Failed
       \<and> jerror (run_job (reds @ [(t1, Response 200 loc cty clen)] @ evs @ [(t2, ZipFinish)])
           (start_job t0 (new_job t i u dir nm))) = Some ''No .mbtiles files found in archive''
       \<and> extractedFiles (run_job (reds @ [(t1, Response 200 loc cty clen)] @ evs @ [(t2, ZipFinish)])
           (start_job t0 (new_job t i u dir nm))) = []
       \<and> targetFiles (run_job (reds @ [(t1, Response 200 loc cty clen)] @ evs @ [(t2, ZipFinish)])
           (start_job t0 (new_job t i u dir nm))) = []
       \<and> opened (run_job (reds @ [(t1, Response 200 loc cty clen)] @ evs @ [(t2, ZipFinish)])
           (start_job t0 (new_job t i u dir nm))) = []
       \<and> drained (run_job (reds @ [(t1, Response 200 loc cty clen)] @ evs @ [(t2, ZipFinish)])
           (start_job t0 (new_job t i u dir nm))) = entry_paths evs"
proof -
  define j0 where "j0 = start_job t0 (new_job t i u dir nm)"
  define j1 where "j1 = run_job reds j0"
  define j2 where "j2 = job_event t1 (Response 200 loc cty clen) j1"
  define j3 where "j3 = run_job evs j2"
  have p0: "phase j0 = Requesting" by (simp add: j0_def start_job_def)
  obtain u' where j1: "j1 = j0 \<lparr> url := u' \<rparr>"
    using run_redirects[OF assms(1) p0] unfolding j1_def by blast
  have zip: "str_includes (case cty of None \<Rightarrow> [] | Some c \<Rightarrow> c) ''zip'' \<or> endsWith u' ''.zip''"
    using assms(3) j1 unfolding j0_def[symmetric] j1_def[symmetric] by simp
  have j2: "j2 = j1 \<lparr> totalBytes := clen, status := Extracting, phase := Zip \<rparr>"
    using zip unfolding j2_def
    by (auto simp: job_event_def on_response_def followed_def j1 j0_def start_job_def new_job_def Let_def)
  have z2: "zip_idle j2" "drained j2 = []"
    by (simp_all add: j2 j1 j0_def zip_idle_def start_job_def new_job_def)
  have z3: "zip_idle j3" "drained j3 = entry_paths evs"
    using run_unmatched[OF z2(1) assms(2)] z2(2) by (simp_all add: j3_def)
  have run: "run_job (reds @ [(t1, Response 200 loc cty clen)] @ evs @ [(t2, ZipFinish)])
           (start_job t0 (new_job t i u dir nm)) = job_event t2 ZipFinish j3"
    by (simp add: run_job_append run_job_Cons run_job_Nil j3_def j2_def j1_def j0_def)
  show ?thesis
    unfolding run zip_finish_idle[OF z3(1)] using z3 by (simp add: zip_idle_def)
qed

theorem zip_without_charts_fails_witness:
  "status (run_job ([(2, Response 302 (Some ''https://mirror/pack.zip'') None None)]
             @ [(3, Response 200 None (Some ''application/octet-stream'') (Some 100))]
             @ [(4, Data 100), (5, Entry ''readme.txt'' True), (6, Entry ''charts.mbtiles'' False)]
             @ [(7, ZipFinish)])
           (start_job 1 (new_job 0 ''dl_1'' ''https://host/pack'' ''/charts'' []))) = Failed
   \<and> jerror (run_job ([(2, Response 302 (Some ''https://mirror/pack.zip'') None None)]
             @ [(3, Response 200 None (Some ''application/octet-stream'') (Some 100))]
             @ [(4, Data 100), (5, Entry ''readme.txt'' True), (6, Entry ''charts.mbtiles'' False)]
             @ [(7, ZipFinish)])
           (start_job 1 (new_job 0 ''dl_1'' ''https://host/pack'' ''/charts'' [])))
       = Some ''No .mbtiles files found in archive''
   \<and> drained (run_job ([(2, Response 302 (Some ''https://mirror/pack.zip'') None None)]
             @ [(3, Response 200 None (Some ''application/octet-stream'') (Some 100))]
             @ [(4, Data 100), (5, Entry ''readme.txt'' True), (6, Entry ''charts.mbtiles'' False)]
             @ [(7, ZipFinish)])
           (start_job 1 (new_job 0 ''dl_1'' ''https://host/pack'' ''/charts'' [])))
       = [''readme.txt'', ''charts.mbtiles'']"
proof -
  have a: "\<forall>e \<in> set [(2 :: nat, Response 302 (Some ''https://mirror/pack.zip'') None None)].
             followed_redirect (snd e)"
    by (simp add: followed_redirect_def followed_def)
  have b: "\<forall>e \<in> set [(4 :: nat, Data 100), (5, Entry ''readme.txt'' True),
                          (6, Entry ''charts.mbtiles'' False)]. unmatched (snd e)"
    by (simp add: unmatched_def endsWith_def)
  have c: "str_includes (case Some ''application/octet-stream'' of None \<Rightarrow> [] | Some c \<Rightarrow> c) ''zip'' \<or>
         endsWith (url (run_job [(2, Response 302 (Some ''https://mirror/pack.zip'') None None)]
           (start_job 1 (new_job 0 ''dl_1'' ''https://host/pack'' ''/charts'' [])))) ''.zip''"
    by (simp add: run_job_def job_event_def on_response_def followed_def start_job_def new_job_def
        endsWith_def)
  show ?thesis
    using zip_without_charts_fails[OF a b c, of 3 None "Some 100" 7]
    by (simp add: entry_paths_def)
qed

section \<open>Properties of the two lists of file names\<close>

lemma files_ok_resolve: "files_ok (resolve t j) = files_ok j"
  by (simp add: files_ok_def resolve_def)

lemma files_ok_reject: "files_ok (reject t m j) = files_ok j"
  by (simp add: files_ok_def reject_def)

lemma files_ok_after_all: "files_ok j \<Longrightarrow> files_ok (after_all t j)"
  by (auto simp: after_all_def files_ok_resolve files_ok_reject split: option.splits)
     (simp_all add: files_ok_def)

lemma files_ok_event:
  assumes "files_ok j" "CHR ''/'' \<notin> set (trim (chartName j))"
  shows "files_ok (job_event t e j)"
proof (cases e)
  case (Response code loc cty clen)
  show ?thesis
  proof (cases "phase j = Requesting")
    case False
    then show ?thesis using assms Response by (simp add: job_event_def)
  next
    case True
    have bn: "basename (path_join (targetDir j) (directFileName (chartName j) (url j))) =
              directFileName (chartName j) (url j)"
      using directFileName_clean[OF assms(2)] by (rule basename_path_join)
    show ?thesis using assms(1) True Response bn
      by (auto simp: job_event_def on_response_def files_ok_def reject_def Let_def split: option.splits)
  qed
next
  case (RequestError m)
  then show ?thesis using assms(1) by (auto simp: job_event_def files_ok_def reject_def)
next
  case (Data n)
  then show ?thesis using assms(1) by (auto simp: job_event_def files_ok_def on_data_keeps)
next
  case (Entry p f)
  then show ?thesis using assms(1) by (auto simp: job_event_def files_ok_def on_entry_def Let_def)
next
  case (StreamClose k)
  show ?thesis
  proof (cases "phase j = Zip \<and> k < length (streams j) \<and> \<not> ws_closed (streams j ! k)")
    case False
    then show ?thesis using assms(1) StreamClose by (auto simp: job_event_def)
  next
    case True
    then have "streams j ! k \<in> set (streams j)" by simp
    then have b: "basename (ws_name (streams j ! k)) \<in> set (targetFiles j)"
      using assms(1) by (simp add: files_ok_def)
    have "\<forall>w \<in> set ((streams j)[k := settle_stream Resolved
                (WStream (ws_name (streams j ! k)) True (ws_promise (streams j ! k)))]).
            basename (ws_name w) \<in> set (targetFiles j)"
      using assms(1) b by (intro set_update_ok) (simp_all add: files_ok_def settle_stream_def)
    then have "files_ok (j \<lparr> extractedFiles := extractedFiles j @ [basename (ws_name (streams j ! k))],
                     streams := (streams j)[k := settle_stream Resolved
                                  (WStream (ws_name (streams j ! k)) True (ws_promise (streams j ! k)))] \<rparr>)"
      using assms(1) b True by (simp add: files_ok_def)
    then show ?thesis using True StreamClose by (simp add: job_event_def files_ok_after_all)
  qed
next
  case (StreamError k m)
  show ?thesis
  proof (cases "phase j = Zip \<and> k < length (streams j)")
    case False
    then show ?thesis using assms(1) StreamError by (auto simp: job_event_def)
  next
    case True
    then have "streams j ! k \<in> set (streams j)" by simp
    then have b: "basename (ws_name (streams j ! k)) \<in> set (targetFiles j)"
      using assms(1) by (simp add: files_ok_def)
    have "\<forall>w \<in> set ((streams j)[k := settle_stream (Rejected m) (streams j ! k)]).
            basename (ws_name w) \<in> set (targetFiles j)"
      using assms(1) b by (intro set_update_ok) (simp_all add: files_ok_def settle_stream_def)
    then have "files_ok (j \<lparr> streams := (streams j)[k := settle_stream (Rejected m) (streams j ! k)] \<rparr>)"
      using assms(1) True by (simp add: files_ok_def)
    then show ?thesis using True StreamError by (simp add: job_event_def files_ok_after_all)
  qed
next
  case ZipFinish
  have "files_ok (j \<lparr> sourceDone := True, awaitingAll := True \<rparr>)"
    using assms(1) by (simp add: files_ok_def)
  then show ?thesis using assms(1) ZipFinish by (simp add: job_event_def files_ok_after_all)
next
  case (ZipError m)
  then show ?thesis using assms(1) by (auto simp: job_event_def files_ok_def reject_def)
next
  case FileFinish
  then show ?thesis using assms(1) by (auto simp: job_event_def files_ok_def resolve_def)
next
  case (FileError m)
  then show ?thesis using assms(1) by (auto simp: job_event_def files_ok_def reject_def)
next
  case Cancel
  then show ?thesis using assms(1) by (auto simp: job_event_def files_ok_def cancel_def)
qed

lemma files_ok_run:
  assumes "files_ok j" "CHR ''/'' \<notin> set (trim (chartName j))"
  shows "files_ok (run_job evs j)"
  using assms
proof (induction evs arbitrary: j)
  case Nil
  then show ?case by (simp add: run_job_Nil)
next
  case (Cons a evs)
  obtain t e where a: "a = (t, e)" by (cases a)
  have "files_ok (job_event t e j)" using Cons.prems by (rule files_ok_event)
  moreover have "CHR ''/'' \<notin> set (trim (chartName (job_event t e j)))"
    using Cons.prems(2) by (simp add: chartName_event)
  ultimately show ?case using Cons.IH by (simp add: a run_job_Cons)
qed

lemma superset_without_slash:
  assumes "CHR ''/'' \<notin> set (trim nm)"
  shows "set (extractedFiles (run_job evs (start_job t0 (new_job t i u dir nm))))
         \<subseteq> set (targetFiles (run_job evs (start_job t0 (new_job t i u dir nm))))"
proof -
  have "files_ok (start_job t0 (new_job t i u dir nm))"
    by (simp add: files_ok_def start_job_def new_job_def)
  moreover have "CHR ''/'' \<notin> set (trim (chartName (start_job t0 (new_job t i u dir nm))))"
    using assms by (simp add: start_job_def new_job_def)
  ultimately have "files_ok (run_job evs (start_job t0 (new_job t i u dir nm)))"
    by (rule files_ok_run)
  then show ?thesis by (simp add: files_ok_def)
qed

text \<open>
  Claim C7. The claim: at every point of every job the names in \<open>targetFiles\<close> include
  the names in \<open>extractedFiles\<close>. The direct branch pushes \<open>fileName\<close> onto
  \<open>targetFiles\<close> and \<open>path.basename(targetPath)\<close> onto \<open>extractedFiles\<close>. For the chart
  name \<open>sub/chart\<close> they differ: once the file is written, \<open>extractedFiles\<close> holds
  \<open>chart.mbtiles\<close> and \<open>targetFiles\<close> holds \<open>sub/chart.mbtiles\<close> only.
\<close>

theorem extractedFiles_not_in_targetFiles:
  "targetFiles (run_job [(2, Response 200 None (Some ''application/octet-stream'') (Some 10)),
                         (3, Data 10), (4, FileFinish)]
      (start_job 1 (new_job 0 ''dl_1'' ''https://host/chart.mbtiles'' ''/charts'' ''sub/chart'')))
     = [''sub/chart.mbtiles'']
   \<and> extractedFiles (run_job [(2, Response 200 None (Some ''application/octet-stream'') (Some 10)),
                         (3, Data 10), (4, FileFinish)]
      (start_job 1 (new_job 0 ''dl_1'' ''https://host/chart.mbtiles'' ''/charts'' ''sub/chart'')))
     = [''chart.mbtiles'']"
  by code_simp

section \<open>The invariant of the queue holds in every reachable state\<close>

lemma job_event_phase_NotStarted:
  "phase j = NotStarted \<Longrightarrow> e \<noteq> Cancel \<Longrightarrow> job_event t e j = j"
  by (cases e) (simp_all add: job_event_def)

lemma job_event_phase:
  "phase (job_event t e j) = NotStarted \<longleftrightarrow> phase j = NotStarted"
  by (cases e)
     (auto simp: job_event_def on_response_def reject_props resolve_props after_all_props
        cancel_props on_data_keeps on_entry_props Let_def split: option.splits)

lemma job_event_settled: "settled j \<Longrightarrow> settled (job_event t e j)"
  by (cases e)
     (auto simp: job_event_def on_response_def reject_props resolve_props after_all_props
        cancel_props on_data_keeps on_entry_props Let_def split: option.splits)

lemma job_ok_cong:
  "status j' = status j \<Longrightarrow> phase j' = phase j \<Longrightarrow> settled j' = settled j \<Longrightarrow>
   job_ok j' = job_ok j"
  by (simp add: job_ok_def in_flight_def running_def)

lemma job_ok_upds:
  "job_ok (j \<lparr> extractedFiles := a \<rparr>) = job_ok j"
  "job_ok (j \<lparr> streams := b \<rparr>) = job_ok j"
  "job_ok (j \<lparr> sourceDone := c \<rparr>) = job_ok j"
  "job_ok (j \<lparr> awaitingAll := d \<rparr>) = job_ok j"
  "job_ok (j \<lparr> progress := e \<rparr>) = job_ok j"
  "job_ok (j \<lparr> unlinked := f \<rparr>) = job_ok j"
  "job_ok (j \<lparr> url := g \<rparr>) = job_ok j"
  by (simp_all add: job_ok_def in_flight_def running_def)

lemma job_ok_resolve:
  "job_ok j \<Longrightarrow> phase j \<noteq> NotStarted \<Longrightarrow> phase j \<noteq> Requesting \<Longrightarrow> job_ok (resolve t j)"
  by (auto simp: job_ok_def in_flight_def running_def resolve_def)

lemma job_ok_reject:
  "job_ok j \<Longrightarrow> phase j \<noteq> NotStarted \<Longrightarrow> phase j \<noteq> Requesting \<Longrightarrow> job_ok (reject t m j)"
  by (auto simp: job_ok_def in_flight_def running_def reject_def)

lemma job_ok_reject_Done:
  "job_ok j \<Longrightarrow> phase j = Requesting \<Longrightarrow> job_ok ((reject t m j) \<lparr> phase := Done \<rparr>)"
  by (auto simp: job_ok_def in_flight_def running_def reject_def)

lemma job_ok_after_all:
  assumes "job_ok j" "phase j = Zip"
  shows "job_ok (after_all t j)"
  using assms
  by (auto simp: after_all_def job_ok_upds intro!: job_ok_reject job_ok_resolve split: option.splits)

lemma job_ok_cancel: "job_ok j \<Longrightarrow> job_ok (cancel t j)"
  by (auto simp: job_ok_def in_flight_def running_def cancel_def)

lemma job_ok_on_response:
  assumes "job_ok j" "phase j = Requesting"
  shows "job_ok (on_response t code loc cty clen j)"
proof (cases "followed code loc")
  case (Some l)
  then show ?thesis using assms(1) by (simp add: on_response_def job_ok_upds)
next
  case None
  show ?thesis
  proof (cases "code = 200")
    case False
    then show ?thesis using None assms by (simp add: on_response_def job_ok_reject_Done)
  next
    case True
    have "\<not> settled j" using assms by (simp add: job_ok_def)
    then show ?thesis using None True assms
      by (simp add: on_response_def Let_def job_ok_def in_flight_def running_def)
  qed
qed

lemma job_ok_event:
  assumes "job_ok j"
  shows "job_ok (job_event t e j)"
proof (cases e)
  case (Response code loc cty clen)
  then show ?thesis using assms by (simp add: job_event_def job_ok_on_response)
next
  case (RequestError m)
  then show ?thesis using assms by (simp add: job_event_def job_ok_reject_Done)
next
  case (Data n)
  then show ?thesis using assms job_ok_cong[of "on_data n j" j] by (simp add: job_event_def on_data_keeps)
next
  case (Entry p f)
  then show ?thesis using assms job_ok_cong[of "on_entry p f j" j] by (simp add: job_event_def on_entry_props)
next
  case (StreamClose k)
  then show ?thesis using assms
    by (auto simp: job_event_def job_ok_upds intro!: job_ok_after_all)
next
  case (StreamError k m)
  then show ?thesis using assms
    by (auto simp: job_event_def job_ok_upds intro!: job_ok_after_all)
next
  case ZipFinish
  then show ?thesis using assms
    by (auto simp: job_event_def job_ok_upds intro!: job_ok_after_all)
next
  case (ZipError m)
  then show ?thesis using assms
    by (auto simp: job_event_def job_ok_upds intro!: job_ok_reject)
next
  case FileFinish
  then show ?thesis using assms
    by (auto simp: job_event_def job_ok_upds intro!: job_ok_resolve)
next
  case (FileError m)
  then show ?thesis using assms
    by (auto simp: job_event_def job_ok_upds intro!: job_ok_reject)
next
  case Cancel
  then show ?thesis using assms by (simp add: job_event_def job_ok_cancel)
qed

lemma job_event_Queued:
  "status (job_event t e j) = Queued \<Longrightarrow> status j = Queued"
  by (cases e)
     (auto simp: job_event_def on_response_def reject_props resolve_props after_all_def
        cancel_props on_data_keeps on_entry_props Let_def split: option.splits if_splits)

lemma job_ok_new: "job_ok (new_job t i u dir nm)"
  by (simp add: job_ok_def new_job_def in_flight_def running_def)

lemma job_ok_start: "job_ok j \<Longrightarrow> status j = Queued \<Longrightarrow> job_ok (start_job t j) \<and> running (start_job t j) \<and> \<not> running j"
  by (auto simp: job_ok_def start_job_def in_flight_def running_def)

lemma running_event:
  assumes "e \<noteq> Cancel"
  shows "running (job_event t e j) = (running j \<and> \<not> settled (job_event t e j))"
  using job_event_phase[of t e j] job_event_settled[of j t e] job_event_phase_NotStarted[of j e t] assms
  by (auto simp: running_def)

lemma first_queued_Some:
  "first_queued m = Some r \<Longrightarrow> r \<in> set (map snd (jobs m)) \<and> status (objs m ! r) = Queued"
  unfolding first_queued_def by (auto simp: find_Some_iff)

lemma refs_valid: "manager_ok m \<Longrightarrow> (i, r) \<in> set (jobs m) \<Longrightarrow> r < length (objs m)"
  by (force simp: manager_ok_def)

lemma processQueue_ok:
  assumes "manager_ok m"
  shows "manager_ok (processQueue t m)"
proof (cases "activeDownloads m \<ge> maxConcurrent")
  case True
  then show ?thesis using assms by (simp add: processQueue_def)
next
  case False
  show ?thesis
  proof (cases "first_queued m")
    case None
    then show ?thesis using assms False by (simp add: processQueue_def)
  next
    case (Some r)
    have r: "r < length (objs m)" "status (objs m ! r) = Queued"
      using first_queued_Some[OF Some] refs_valid[OF assms] by auto
    have ok: "job_ok (objs m ! r)" using assms r(1) by (simp add: manager_ok_def)
    note st = job_ok_start[OF ok r(2), of t]
    have cnt: "length (filter running ((objs m)[r := start_job t (objs m ! r)])) =
               Suc (length (filter running (objs m)))"
      using r(1) st by (intro filter_update_inc) simp_all
    have pq: "processQueue t m =
        m \<lparr> activeDownloads := activeDownloads m + 1,
            objs := (objs m)[r := start_job t (objs m ! r)] \<rparr>"
      using False Some by (simp add: processQueue_def)
    show ?thesis
      unfolding pq using assms False st set_update_ok[of "objs m" job_ok "start_job t (objs m ! r)" r]
      by (simp add: manager_ok_def cnt maxConcurrent_def)
  qed
qed

lemma map_set_snd: "set (map snd (map_set k v js)) \<subseteq> insert v (set (map snd js))"
  by (auto simp: map_set_def split: if_splits)

lemma map_set_fst: "map fst (map_set k v js) = (if k \<in> set (map fst js) then map fst js else map fst js @ [k])"
  by (auto simp: map_set_def split: if_splits)

lemma map_set_distinct_snd:
  assumes "distinct (map snd js)" "v \<notin> set (map snd js)" "distinct (map fst js)"
  shows "distinct (map snd (map_set k v js))"
proof (cases "k \<in> set (map fst js)")
  case False
  then show ?thesis using assms by (simp add: map_set_def)
next
  case True
  have "distinct (map snd (map (\<lambda>(k', v'). if k' = k then (k', v) else (k', v')) js))"
    using assms
  proof (induction js)
    case Nil
    then show ?case by simp
  next
    case (Cons a js)
    obtain k' v' where a: "a = (k', v')" by (cases a)
    show ?case
    proof (cases "k' = k")
      case True
      then have "k \<notin> set (map fst js)" using Cons.prems(3) a by auto
      then have same: "map (\<lambda>(k', v'). if k' = k then (k', v) else (k', v')) js = js"
        by (induction js) auto
      show ?thesis using Cons.prems a True by (simp add: same)
    next
      case False
      have "set (map snd (map (\<lambda>(k', v'). if k' = k then (k', v) else (k', v')) js)) \<subseteq> insert v (set (map snd js))"
        by (fastforce split: if_splits)
      then show ?thesis using Cons a False by auto
    qed
  qed
  then show ?thesis using True by (simp add: map_set_def)
qed

lemma map_of_map_set: "map_of (map_set k v js) k = Some v"
proof (cases "k \<in> set (map fst js)")
  case False
  then have "map_of js k = None" by (simp add: map_of_eq_None_iff)
  then show ?thesis using False by (simp add: map_set_def map_add_def)
next
  case True
  then have "map_of (map (\<lambda>(k', v'). if k' = k then (k', v) else (k', v')) js) k = Some v"
    by (induction js) auto
  then show ?thesis using True by (simp add: map_set_def)
qed

lemma createJob_ok:
  assumes "manager_ok m"
  shows "manager_ok (createJob t i u dir nm m)"
proof -
  define m1 where "m1 = m \<lparr> objs := objs m @ [new_job t i u dir nm],
                             jobs := map_set i (length (objs m)) (jobs m) \<rparr>"
  have fresh: "length (objs m) \<notin> set (map snd (jobs m))"
    using refs_valid[OF assms] by fastforce
  have old: "\<forall>r \<in> set (map snd (jobs m)). r < Suc (length (objs m))"
    using refs_valid[OF assms] by fastforce
  have nr: "\<not> running (new_job t i u dir nm)" by (simp add: running_def new_job_def)
  have refs: "\<forall>r \<in> set (map snd (map_set i (length (objs m)) (jobs m))). r < Suc (length (objs m))"
  proof (intro ballI)
    fix r
    assume "r \<in> set (map snd (map_set i (length (objs m)) (jobs m)))"
    then have "r = length (objs m) \<or> r \<in> set (map snd (jobs m))"
      using map_set_snd[of i "length (objs m)" "jobs m"] by blast
    then show "r < Suc (length (objs m))" using old by blast
  qed
  have d1: "distinct (map snd (map_set i (length (objs m)) (jobs m)))"
    using assms fresh by (intro map_set_distinct_snd) (simp_all add: manager_ok_def)
  have d2: "distinct (map fst (map_set i (length (objs m)) (jobs m)))"
    using assms by (simp add: map_set_fst manager_ok_def)
  have "manager_ok m1"
    unfolding manager_ok_def m1_def using assms nr job_ok_new[of t i u dir nm] refs d1 d2
    by (simp add: manager_ok_def)
  then show ?thesis unfolding createJob_def m1_def[symmetric] by (rule processQueue_ok)
qed

lemma job_step_ok:
  assumes "manager_ok m"
  shows "manager_ok (job_step t r e m)"
proof (cases "r < length (objs m) \<and> e \<noteq> Cancel")
  case False
  then show ?thesis using assms by (auto simp: job_step_def)
next
  case True
  define j where "j = objs m ! r"
  define j' where "j' = job_event t e j"
  define m1 where "m1 = m \<lparr> objs := (objs m)[r := j'] \<rparr>"
  have ok: "job_ok j" using assms True by (simp add: manager_ok_def j_def)
  have ok': "job_ok j'" unfolding j'_def by (rule job_ok_event[OF ok])
  have run: "running j' = (running j \<and> \<not> settled j')"
    unfolding j'_def using True by (intro running_event) simp
  have oks: "\<forall>x \<in> set ((objs m)[r := j']). job_ok x"
    using assms ok' by (intro set_update_ok) (simp_all add: manager_ok_def)
  show ?thesis
  proof (cases "\<not> settled j \<and> settled j'")
    case False
    then have "running j' = running j"
      using run job_event_settled[of j t e] by (auto simp: j'_def running_def)
    then have "length (filter running ((objs m)[r := j'])) = length (filter running (objs m))"
      using True by (intro filter_update_same) (simp_all add: j_def)
    then have "manager_ok m1" using assms oks by (simp add: manager_ok_def m1_def)
    moreover have "job_step t r e m = m1"
      using True False by (auto simp: job_step_def Let_def j_def j'_def m1_def)
    ultimately show ?thesis by simp
  next
    case s: True
    have "phase j \<noteq> NotStarted"
      using s job_event_phase_NotStarted[of j e t] True by (auto simp: j'_def)
    then have rj: "running j" "\<not> running j'" using s run by (simp_all add: running_def)
    have cnt: "Suc (length (filter running ((objs m)[r := j']))) = length (filter running (objs m))"
      using True rj by (intro filter_update_dec) (simp_all add: j_def)
    have "manager_ok (m1 \<lparr> activeDownloads := activeDownloads m1 - 1 \<rparr>)"
      using assms oks cnt by (auto simp: manager_ok_def m1_def)
    then have "manager_ok (processQueue t (m1 \<lparr> activeDownloads := activeDownloads m1 - 1 \<rparr>))"
      by (rule processQueue_ok)
    moreover have "job_step t r e m = processQueue t (m1 \<lparr> activeDownloads := activeDownloads m1 - 1 \<rparr>)"
      using True s by (simp add: job_step_def Let_def j_def j'_def m1_def)
    ultimately show ?thesis by simp
  qed
qed

lemma cancelJob_ok:
  assumes "manager_ok m"
  shows "manager_ok (snd (cancelJob t i m))"
proof (cases "map_of (jobs m) i")
  case None
  then show ?thesis using assms by (simp add: cancelJob_def)
next
  case (Some r)
  then have "(i, r) \<in> set (jobs m)" by (rule map_of_SomeD)
  then have r: "r < length (objs m)" by (rule refs_valid[OF assms])
  have ok: "job_ok (cancel t (objs m ! r))"
    using assms r by (intro job_ok_cancel) (simp add: manager_ok_def)
  have "running (cancel t (objs m ! r)) = running (objs m ! r)"
    by (simp add: running_def cancel_props)
  then have "length (filter running ((objs m)[r := cancel t (objs m ! r)])) = length (filter running (objs m))"
    using r by (intro filter_update_same) simp_all
  then show ?thesis
    using assms Some ok set_update_ok[of "objs m" job_ok "cancel t (objs m ! r)" r]
    by (simp add: cancelJob_def manager_ok_def)
qed

lemma cleanup_ok:
  assumes "manager_ok m"
  shows "manager_ok (cleanup t m)"
  using assms by (auto simp: manager_ok_def cleanup_def distinct_map_filter)

lemma step_ok: "manager_ok m \<Longrightarrow> manager_ok (step t e m)"
  by (cases e) (simp_all add: createJob_ok job_step_ok cancelJob_ok cleanup_ok)

lemma run_snoc: "run (evs @ [(t, e)]) = step t e (run evs)"
  by (simp add: run_def)

lemma run_ok: "manager_ok (run evs)"
proof (induction evs rule: rev_induct)
  case Nil
  show ?case by (simp add: run_def init_manager_def manager_ok_def maxConcurrent_def)
next
  case (snoc a evs)
  obtain t e where "a = (t, e)" by (cases a)
  then show ?case using snoc by (simp add: run_snoc step_ok)
qed

section \<open>Properties of the queue\<close>

lemma in_flight_le_active:
  assumes "manager_ok m"
  shows "int (length (in_flight_jobs m)) \<le> activeDownloads m"
proof -
  define rs where "rs = map snd (in_flight_jobs m)"
  have d: "distinct rs"
    using assms unfolding rs_def in_flight_jobs_def manager_ok_def by (simp add: distinct_map_filter)
  have sub: "set rs \<subseteq> {i. i < length (objs m) \<and> running (objs m ! i)}"
  proof
    fix r
    assume "r \<in> set rs"
    then obtain i where ir: "(i, r) \<in> set (jobs m)" "in_flight (objs m ! r)"
      by (auto simp: rs_def in_flight_jobs_def)
    have r: "r < length (objs m)" by (rule refs_valid[OF assms ir(1)])
    then have "job_ok (objs m ! r)" using assms by (simp add: manager_ok_def)
    then have "running (objs m ! r)" using ir(2) by (simp add: job_ok_def)
    with r show "r \<in> {i. i < length (objs m) \<and> running (objs m ! i)}" by simp
  qed
  have "length (in_flight_jobs m) = length rs" by (simp add: rs_def)
  also have "\<dots> = card (set rs)" using distinct_card[OF d] by simp
  also have "\<dots> \<le> card {i. i < length (objs m) \<and> running (objs m ! i)}"
    using sub by (intro card_mono) simp_all
  also have "\<dots> = length (filter running (objs m))"
    by (simp add: length_filter_conv_card)
  finally show ?thesis using assms by (simp add: manager_ok_def)
qed

lemma in_flight_bound: "manager_ok m \<Longrightarrow> length (in_flight_jobs m) \<le> 3"
  using in_flight_le_active[of m] by (simp add: manager_ok_def maxConcurrent_def)

lemma in_flight_full:
  "manager_ok m \<Longrightarrow> length (in_flight_jobs m) = 3 \<Longrightarrow> activeDownloads m \<ge> maxConcurrent"
  using in_flight_le_active[of m] by (simp add: maxConcurrent_def)

lemma in_flight_objects_bound:
  assumes "manager_ok m"
  shows "length (filter in_flight (objs m)) \<le> 3"
proof -
  have "\<forall>j \<in> set (objs m). in_flight j \<longrightarrow> running j"
    using assms by (simp add: manager_ok_def job_ok_def)
  then have "length (filter in_flight (objs m)) \<le> length (filter running (objs m))"
    by (rule filter_length_mono)
  then show ?thesis using assms by (simp add: manager_ok_def maxConcurrent_def)
qed

lemma createJob_full:
  assumes "activeDownloads m \<ge> maxConcurrent"
  shows "createJob t i u dir nm m =
           m \<lparr> objs := objs m @ [new_job t i u dir nm],
               jobs := map_set i (length (objs m)) (jobs m) \<rparr>"
  using assms by (simp add: createJob_def processQueue_def)

lemma createJob_full_queued:
  assumes "activeDownloads m \<ge> maxConcurrent"
  shows "map_of (jobs (createJob t i u dir nm m)) i = Some (length (objs m))"
    and "status (objs (createJob t i u dir nm m) ! length (objs m)) = Queued"
    and "activeDownloads (createJob t i u dir nm m) = activeDownloads m"
    and "\<forall>r < length (objs m). objs (createJob t i u dir nm m) ! r = objs m ! r"
  unfolding createJob_full[OF assms]
  by (simp_all add: map_of_map_set new_job_def nth_append)

lemma stays_queued:
  assumes "manager_ok m" "activeDownloads m \<ge> maxConcurrent" "\<not> frees_slot t e m"
    and "r < length (objs m)" "status (objs m ! r) = Queued"
  shows "status (objs (step t e m) ! r) = Queued \<or> status (objs (step t e m) ! r) = Failed"
proof (cases e)
  case (CreateJob i u dir nm)
  then show ?thesis using createJob_full_queued(4)[OF assms(2)] assms(4,5) by simp
next
  case (JobEvent r' je)
  show ?thesis
  proof (cases "r' < length (objs m) \<and> je \<noteq> Cancel")
    case False
    then show ?thesis using JobEvent assms(5) by (auto simp: job_step_def)
  next
    case True
    then have ns: "\<not> (\<not> settled (objs m ! r') \<and> settled (job_event t je (objs m ! r')))"
      using assms(3) JobEvent by (simp add: frees_slot_def)
    have st: "step t e m = m \<lparr> objs := (objs m)[r' := job_event t je (objs m ! r')] \<rparr>"
      using True ns JobEvent by (auto simp: job_step_def Let_def)
    show ?thesis
    proof (cases "r = r'")
      case False
      then show ?thesis using assms(5) by (simp add: st)
    next
      case same: True
      have "job_ok (objs m ! r)" using assms(1,4) by (simp add: manager_ok_def)
      then have "phase (objs m ! r) = NotStarted" using assms(5) by (simp add: job_ok_def)
      then have "job_event t je (objs m ! r) = objs m ! r"
        using True by (intro job_event_phase_NotStarted) simp_all
      then show ?thesis using assms(4,5) same by (simp add: st)
    qed
  qed
next
  case (CancelJob i)
  show ?thesis
  proof (cases "map_of (jobs m) i")
    case None
    then show ?thesis using CancelJob assms(5) by (simp add: cancelJob_def)
  next
    case (Some r')
    then show ?thesis using CancelJob assms(4,5)
      by (cases "r = r'") (auto simp: cancelJob_def cancel_props)
  qed
next
  case Cleanup
  then show ?thesis using assms(5) by (simp add: cleanup_def)
qed

lemma slot_freed:
  assumes "manager_ok m" "frees_slot t e m"
  obtains r0 je where "e = JobEvent r0 je" "r0 < length (objs m)"
    and "status (objs m ! r0) \<noteq> Queued"
    and "status (job_event t je (objs m ! r0)) \<noteq> Queued"
    and "step t e m =
           processQueue t (m \<lparr> objs := (objs m)[r0 := job_event t je (objs m ! r0)],
                                activeDownloads := activeDownloads m - 1 \<rparr>)"
proof -
  from assms(2) obtain r0 je where e: "e = JobEvent r0 je"
    and f: "r0 < length (objs m)" "je \<noteq> Cancel" "\<not> settled (objs m ! r0)"
      "settled (job_event t je (objs m ! r0))"
    by (auto simp: frees_slot_def split: mevent.splits)
  have "phase (objs m ! r0) \<noteq> NotStarted"
    using f job_event_phase_NotStarted[of "objs m ! r0" je t] by auto
  moreover have "job_ok (objs m ! r0)" using assms(1) f(1) by (simp add: manager_ok_def)
  ultimately have q: "status (objs m ! r0) \<noteq> Queued" by (auto simp: job_ok_def)
  then have q': "status (job_event t je (objs m ! r0)) \<noteq> Queued"
    using job_event_Queued by blast
  have "step t e m =
           processQueue t (m \<lparr> objs := (objs m)[r0 := job_event t je (objs m ! r0)],
                                activeDownloads := activeDownloads m - 1 \<rparr>)"
    using f by (simp add: e job_step_def Let_def)
  with e f(1) q q' show ?thesis by (rule that)
qed

lemma oldest_admitted:
  assumes "manager_ok m" "frees_slot t e m"
  shows "case first_queued m of
           None \<Rightarrow> (\<forall>r < length (objs m). status (objs m ! r) = Queued \<longrightarrow>
                      status (objs (step t e m) ! r) = Queued)
         | Some q \<Rightarrow> status (objs (step t e m) ! q) = Downloading \<and>
                    (\<forall>r < length (objs m). r \<noteq> q \<and> status (objs m ! r) = Queued \<longrightarrow>
                      status (objs (step t e m) ! r) = Queued)"
proof -
  from slot_freed[OF assms] obtain r0 je where e: "e = JobEvent r0 je"
    and r0: "r0 < length (objs m)" "status (objs m ! r0) \<noteq> Queued"
      "status (job_event t je (objs m ! r0)) \<noteq> Queued"
    and st: "step t e m =
           processQueue t (m \<lparr> objs := (objs m)[r0 := job_event t je (objs m ! r0)],
                                activeDownloads := activeDownloads m - 1 \<rparr>)"
    by blast
  define m1 where "m1 = m \<lparr> objs := (objs m)[r0 := job_event t je (objs m ! r0)],
                             activeDownloads := activeDownloads m - 1 \<rparr>"
  have same: "\<And>r. (status (objs m1 ! r) = Queued) = (status (objs m ! r) = Queued)"
    using r0 by (case_tac "r = r0") (simp_all add: m1_def)
  have fq: "first_queued m1 = first_queued m"
    unfolding first_queued_def using same by (simp add: m1_def cong: find_cong)
  have free: "\<not> activeDownloads m1 \<ge> maxConcurrent"
    using assms(1) by (simp add: m1_def manager_ok_def)
  show ?thesis
  proof (cases "first_queued m")
    case None
    then have "step t e m = m1" using st fq by (simp add: processQueue_def m1_def[symmetric])
    then show ?thesis using None same by simp
  next
    case (Some q)
    have q: "q < length (objs m)" "status (objs m ! q) = Queued"
      using first_queued_Some[OF Some] refs_valid[OF assms(1)] by auto
    have stq: "step t e m = m1 \<lparr> activeDownloads := activeDownloads m1 + 1,
                                  objs := (objs m1)[q := start_job t (objs m1 ! q)] \<rparr>"
      using st fq Some free by (simp add: processQueue_def m1_def[symmetric])
    have len: "length (objs m1) = length (objs m)" by (simp add: m1_def)
    have "status (objs (step t e m) ! q) = Downloading"
      using q len by (simp add: stq start_job_def)
    moreover have "\<forall>r < length (objs m). r \<noteq> q \<and> status (objs m ! r) = Queued \<longrightarrow>
                      status (objs (step t e m) ! r) = Queued"
      using same by (simp add: stq)
    ultimately show ?thesis using Some by simp
  qed
qed

lemma first_queued_first:
  assumes "k < length (jobs m)" "status (objs m ! snd (jobs m ! k)) = Queued"
    and "\<forall>k' < k. status (objs m ! snd (jobs m ! k')) \<noteq> Queued"
  shows "first_queued m = Some (snd (jobs m ! k))"
  unfolding first_queued_def find_Some_iff
  using assms by (intro exI[of _ k]) simp

lemma first_queued_none:
  assumes "\<forall>k < length (jobs m). status (objs m ! snd (jobs m ! k)) \<noteq> Queued"
  shows "first_queued m = None"
  unfolding first_queued_def find_None_iff
  using assms by (fastforce simp: in_set_conv_nth)

lemma createJob_jobs:
  "jobs (createJob t i u dir nm m) = map_set i (length (objs m)) (jobs m)"
  by (simp add: createJob_def processQueue_def split: option.splits)

lemma createJob_appends:
  "i \<notin> set (map fst (jobs m)) \<Longrightarrow>
     jobs (createJob t i u dir nm m) = jobs m @ [(i, length (objs m))]"
  by (simp add: createJob_jobs map_set_def)

lemma createJob_keeps_place:
  "i \<in> set (map fst (jobs m)) \<Longrightarrow>
     map fst (jobs (createJob t i u dir nm m)) = map fst (jobs m)"
  by (simp add: createJob_jobs map_set_fst)

lemma step_keeps_order:
  "\<not> is_create e \<Longrightarrow>
     jobs (step t e m) =
       (if e = Cleanup then filter (\<lambda>(i, r). \<not> expired t (objs m ! r)) (jobs m) else jobs m)"
  by (cases e)
     (auto simp: is_create_def job_step_def Let_def processQueue_def cancelJob_def cleanup_def
           split: option.splits)

lemma first_admitted:
  assumes "manager_ok m" "frees_slot t e m"
    and "k < length (jobs m)" "status (objs m ! snd (jobs m ! k)) = Queued"
    and "\<forall>k' < k. status (objs m ! snd (jobs m ! k')) \<noteq> Queued"
  shows "snd (jobs m ! k) < length (objs m)"
    and "status (objs (step t e m) ! snd (jobs m ! k)) = Downloading"
    and "\<forall>r < length (objs m). r \<noteq> snd (jobs m ! k) \<and> status (objs m ! r) = Queued \<longrightarrow>
           status (objs (step t e m) ! r) = Queued"
proof -
  have fq: "first_queued m = Some (snd (jobs m ! k))"
    by (rule first_queued_first[OF assms(3-5)])
  have "jobs m ! k \<in> set (jobs m)" using assms(3) by simp
  then have "(fst (jobs m ! k), snd (jobs m ! k)) \<in> set (jobs m)" by simp
  then show "snd (jobs m ! k) < length (objs m)" by (rule refs_valid[OF assms(1)])
  show "status (objs (step t e m) ! snd (jobs m ! k)) = Downloading"
    using oldest_admitted[OF assms(1,2)] fq by simp
  show "\<forall>r < length (objs m). r \<noteq> snd (jobs m ! k) \<and> status (objs m ! r) = Queued \<longrightarrow>
           status (objs (step t e m) ! r) = Queued"
    using oldest_admitted[OF assms(1,2)] fq by simp
qed

lemma none_admitted:
  assumes "manager_ok m" "frees_slot t e m"
    and "\<forall>k < length (jobs m). status (objs m ! snd (jobs m ! k)) \<noteq> Queued"
  shows "\<forall>r < length (objs m). status (objs m ! r) = Queued \<longrightarrow>
           status (objs (step t e m) ! r) = Queued"
  using oldest_admitted[OF assms(1,2)] first_queued_none[OF assms(3)] by simp

text \<open>
  Claim C3. In every state the manager reaches, at most 3 jobs of the \<open>Map\<close> have the
  status downloading or extracting, and so do at most 3 job objects in all, those that
  the \<open>Map\<close> has dropped included; when there are 3 in the \<open>Map\<close>, the counter
  \<open>activeDownloads\<close> is at its bound. While the counter is at its bound, a job that is
  submitted is stored with status queued and nothing else changes, and no event other
  than one that settles a running job moves a queued job on (a queued job stays queued,
  or is failed when it is cancelled). An event that settles a running job frees a slot:
  then the job that \<open>processQueue\<close> finds becomes downloading and every other queued
  job stays queued. The job found is the oldest queued job: it is the job at the
  position \<open>k\<close> of the \<open>Map\<close> such that this job is queued and no job at a position
  before \<open>k\<close> is; when no job of the \<open>Map\<close> is queued, no job is started. The
  positions of the \<open>Map\<close> are in the order of insertion: \<open>createJob\<close> with an id
  that the \<open>Map\<close> does not hold puts the job after all others, with an id that the
  \<open>Map\<close> holds it leaves the order of the ids as it is, and every other event leaves
  the \<open>Map\<close> as it is, but for \<open>cleanup\<close>, which takes the expired jobs out.
\<close>

theorem queue_admission:
  "length (in_flight_jobs (run evs)) \<le> 3
   \<and> length (filter in_flight (objs (run evs))) \<le> 3
   \<and> (length (in_flight_jobs (run evs)) = 3 \<longrightarrow> activeDownloads (run evs) \<ge> maxConcurrent)
   \<and> (activeDownloads (run evs) \<ge> maxConcurrent \<longrightarrow>
        map_of (jobs (createJob now i u dir nm (run evs))) i = Some (length (objs (run evs)))
        \<and> status (objs (createJob now i u dir nm (run evs)) ! length (objs (run evs))) = Queued
        \<and> activeDownloads (createJob now i u dir nm (run evs)) = activeDownloads (run evs)
        \<and> (\<forall>r < length (objs (run evs)).
              objs (createJob now i u dir nm (run evs)) ! r = objs (run evs) ! r))
   \<and> (activeDownloads (run evs) \<ge> maxConcurrent \<and> \<not> frees_slot now e (run evs) \<longrightarrow>
        (\<forall>r < length (objs (run evs)). status (objs (run evs) ! r) = Queued \<longrightarrow>
           status (objs (step now e (run evs)) ! r) = Queued \<or>
           status (objs (step now e (run evs)) ! r) = Failed))
   \<and> (frees_slot now e (run evs) \<longrightarrow>
        (case first_queued (run evs) of
           None \<Rightarrow> (\<forall>r < length (objs (run evs)). status (objs (run evs) ! r) = Queued \<longrightarrow>
                      status (objs (step now e (run evs)) ! r) = Queued)
         | Some q \<Rightarrow> status (objs (step now e (run evs)) ! q) = Downloading \<and>
                    (\<forall>r < length (objs (run evs)). r \<noteq> q \<and> status (objs (run evs) ! r) = Queued \<longrightarrow>
                      status (objs (step now e (run evs)) ! r) = Queued)))
   \<and> (frees_slot now e (run evs) \<longrightarrow>
        (\<forall>k < length (jobs (run evs)).
           status (objs (run evs) ! snd (jobs (run evs) ! k)) = Queued \<and>
           (\<forall>k' < k. status (objs (run evs) ! snd (jobs (run evs) ! k')) \<noteq> Queued) \<longrightarrow>
             snd (jobs (run evs) ! k) < length (objs (run evs)) \<and>
             status (objs (step now e (run evs)) ! snd (jobs (run evs) ! k)) = Downloading \<and>
             (\<forall>r < length (objs (run evs)).
                r \<noteq> snd (jobs (run evs) ! k) \<and> status (objs (run evs) ! r) = Queued \<longrightarrow>
                  status (objs (step now e (run evs)) ! r) = Queued)))
   \<and> (frees_slot now e (run evs) \<and>
      (\<forall>k < length (jobs (run evs)). status (objs (run evs) ! snd (jobs (run evs) ! k)) \<noteq> Queued) \<longrightarrow>
        (\<forall>r < length (objs (run evs)). status (objs (run evs) ! r) = Queued \<longrightarrow>
           status (objs (step now e (run evs)) ! r) = Queued))
   \<and> (i \<notin> set (map fst (jobs (run evs))) \<longrightarrow>
        jobs (createJob now i u dir nm (run evs)) = jobs (run evs) @ [(i, length (objs (run evs)))])
   \<and> (i \<in> set (map fst (jobs (run evs))) \<longrightarrow>
        map fst (jobs (createJob now i u dir nm (run evs))) = map fst (jobs (run evs)))
   \<and> (\<not> is_create e \<longrightarrow>
        jobs (step now e (run evs)) =
          (if e = Cleanup
           then filter (\<lambda>(i, r). \<not> expired now (objs (run evs) ! r)) (jobs (run evs))
           else jobs (run evs)))"
proof -
  note ok = run_ok[of evs]
  have 1: "length (in_flight_jobs (run evs)) \<le> 3" by (rule in_flight_bound[OF ok])
  have 0: "length (filter in_flight (objs (run evs))) \<le> 3" by (rule in_flight_objects_bound[OF ok])
  have 2: "length (in_flight_jobs (run evs)) = 3 \<longrightarrow> activeDownloads (run evs) \<ge> maxConcurrent"
    using in_flight_full[OF ok] by blast
  have 3: "activeDownloads (run evs) \<ge> maxConcurrent \<longrightarrow>
        map_of (jobs (createJob now i u dir nm (run evs))) i = Some (length (objs (run evs)))
        \<and> status (objs (createJob now i u dir nm (run evs)) ! length (objs (run evs))) = Queued
        \<and> activeDownloads (createJob now i u dir nm (run evs)) = activeDownloads (run evs)
        \<and> (\<forall>r < length (objs (run evs)).
              objs (createJob now i u dir nm (run evs)) ! r = objs (run evs) ! r)"
    using createJob_full_queued[of "run evs" now i u dir nm] by blast
  have 4: "activeDownloads (run evs) \<ge> maxConcurrent \<and> \<not> frees_slot now e (run evs) \<longrightarrow>
        (\<forall>r < length (objs (run evs)). status (objs (run evs) ! r) = Queued \<longrightarrow>
           status (objs (step now e (run evs)) ! r) = Queued \<or>
           status (objs (step now e (run evs)) ! r) = Failed)"
    using stays_queued[OF ok, of now e] by blast
  have 5: "frees_slot now e (run evs) \<longrightarrow>
        (case first_queued (run evs) of
           None \<Rightarrow> (\<forall>r < length (objs (run evs)). status (objs (run evs) ! r) = Queued \<longrightarrow>
                      status (objs (step now e (run evs)) ! r) = Queued)
         | Some q \<Rightarrow> status (objs (step now e (run evs)) ! q) = Downloading \<and>
                    (\<forall>r < length (objs (run evs)). r \<noteq> q \<and> status (objs (run evs) ! r) = Queued \<longrightarrow>
                      status (objs (step now e (run evs)) ! r) = Queued))"
    using oldest_admitted[OF ok, of now e] by blast
  have 6: "frees_slot now e (run evs) \<longrightarrow>
        (\<forall>k < length (jobs (run evs)).
           status (objs (run evs) ! snd (jobs (run evs) ! k)) = Queued \<and>
           (\<forall>k' < k. status (objs (run evs) ! snd (jobs (run evs) ! k')) \<noteq> Queued) \<longrightarrow>
             snd (jobs (run evs) ! k) < length (objs (run evs)) \<and>
             status (objs (step now e (run evs)) ! snd (jobs (run evs) ! k)) = Downloading \<and>
             (\<forall>r < length (objs (run evs)).
                r \<noteq> snd (jobs (run evs) ! k) \<and> status (objs (run evs) ! r) = Queued \<longrightarrow>
                  status (objs (step now e (run evs)) ! r) = Queued))"
  proof (intro impI allI)
    fix k
    assume f: "frees_slot now e (run evs)" and k: "k < length (jobs (run evs))"
      and q: "status (objs (run evs) ! snd (jobs (run evs) ! k)) = Queued \<and>
           (\<forall>k' < k. status (objs (run evs) ! snd (jobs (run evs) ! k')) \<noteq> Queued)"
    from q have q1: "status (objs (run evs) ! snd (jobs (run evs) ! k)) = Queued"
      and q2: "\<forall>k' < k. status (objs (run evs) ! snd (jobs (run evs) ! k')) \<noteq> Queued"
      by blast+
    from first_admitted[OF ok f k q1 q2]
    show "snd (jobs (run evs) ! k) < length (objs (run evs)) \<and>
             status (objs (step now e (run evs)) ! snd (jobs (run evs) ! k)) = Downloading \<and>
             (\<forall>r < length (objs (run evs)).
                r \<noteq> snd (jobs (run evs) ! k) \<and> status (objs (run evs) ! r) = Queued \<longrightarrow>
                  status (objs (step now e (run evs)) ! r) = Queued)"
      by (intro conjI)
  qed
  have 7: "frees_slot now e (run evs) \<and>
      (\<forall>k < length (jobs (run evs)). status (objs (run evs) ! snd (jobs (run evs) ! k)) \<noteq> Queued) \<longrightarrow>
        (\<forall>r < length (objs (run evs)). status (objs (run evs) ! r) = Queued \<longrightarrow>
           status (objs (step now e (run evs)) ! r) = Queued)"
    using none_admitted[OF ok, of now e] by blast
  have 8: "i \<notin> set (map fst (jobs (run evs))) \<longrightarrow>
        jobs (createJob now i u dir nm (run evs)) = jobs (run evs) @ [(i, length (objs (run evs)))]"
    using createJob_appends[of i "run evs" now u dir nm] by blast
  have 9: "i \<in> set (map fst (jobs (run evs))) \<longrightarrow>
        map fst (jobs (createJob now i u dir nm (run evs))) = map fst (jobs (run evs))"
    using createJob_keeps_place[of i "run evs" now u dir nm] by blast
  have 10: "\<not> is_create e \<longrightarrow>
        jobs (step now e (run evs)) =
          (if e = Cleanup
           then filter (\<lambda>(i, r). \<not> expired now (objs (run evs) ! r)) (jobs (run evs))
           else jobs (run evs))"
    using step_keeps_order[of e now "run evs"] by blast
  from 1 0 2 3 4 5 6 7 8 9 10 show ?thesis by (intro conjI)
qed

theorem queue_admission_witness:
  "length (in_flight_jobs (run three_jobs)) \<le> 3
   \<and> status (objs (createJob 3 ''d'' ''http://host/d.zip'' ''/charts'' [] (run three_jobs)) ! 3) = Queued
   \<and> jobs (createJob 3 ''d'' ''http://host/d.zip'' ''/charts'' [] (run three_jobs)) =
       jobs (run three_jobs) @ [(''d'', 3)]
   \<and> status (objs (step 5 (JobEvent 0 (Response 302 (Some ''http://mirror/a.zip'') None None))
                  (run five_jobs)) ! 3) \<noteq> Downloading
   \<and> status (objs (step 6 (JobEvent 1 (RequestError ''reset'')) (run five_jobs)) ! 3) = Downloading
   \<and> status (objs (step 6 (JobEvent 1 (RequestError ''reset'')) (run five_jobs)) ! 4) = Queued
   \<and> jobs (step 6 (JobEvent 1 (RequestError ''reset'')) (run five_jobs)) = jobs (run five_jobs)"
proof -
  let ?M = "run five_jobs"
  let ?R = "JobEvent 0 (Response 302 (Some ''http://mirror/a.zip'') None None)"
  let ?E = "JobEvent 1 (RequestError ''reset'')"
  have a: "activeDownloads (run three_jobs) \<ge> maxConcurrent" by code_simp
  have l3: "length (objs (run three_jobs)) = 3" by code_simp
  have fr: "''d'' \<notin> set (map fst (jobs (run three_jobs)))" by code_simp
  have b: "activeDownloads ?M \<ge> maxConcurrent \<and> \<not> frees_slot 5 ?R ?M" by code_simp
  have js: "map snd (jobs ?M) = [0, 1, 2, 3, 4]" by code_simp
  have ss: "map status (objs ?M) = [Downloading, Downloading, Downloading, Queued, Queued]"
    by code_simp
  have lj: "length (jobs ?M) = 5" using arg_cong[OF js, of length] by simp
  have lo: "length (objs ?M) = 5" using arg_cong[OF ss, of length] by simp
  have sj: "snd (jobs ?M ! k) = [0, 1, 2, 3, 4] ! k" if "k < 5" for k
  proof -
    have "snd (jobs ?M ! k) = map snd (jobs ?M) ! k" using that lj by simp
    then show ?thesis by (simp only: js)
  qed
  have so: "status (objs ?M ! k) = [Downloading, Downloading, Downloading, Queued, Queued] ! k"
    if "k < 5" for k
  proof -
    have "status (objs ?M ! k) = map status (objs ?M) ! k" using that lo by simp
    then show ?thesis by (simp only: ss)
  qed
  have j3: "snd (jobs ?M ! 3) = 3" using sj[of 3] by simp
  have q3: "status (objs ?M ! 3) = Queued" using so[of 3] by simp
  have q4: "status (objs ?M ! 4) = Queued" using so[of 4] by simp
  have first: "status (objs ?M ! snd (jobs ?M ! 3)) = Queued \<and>
           (\<forall>k' < 3. status (objs ?M ! snd (jobs ?M ! k')) \<noteq> Queued)"
  proof (intro conjI allI impI)
    show "status (objs ?M ! snd (jobs ?M ! 3)) = Queued" using j3 q3 by simp
  next
    fix k' :: nat
    assume k': "k' < 3"
    then have "k' = 0 \<or> k' = 1 \<or> k' = 2" by arith
    then have "snd (jobs ?M ! k') = k' \<and> status (objs ?M ! k') \<noteq> Queued"
      using sj[of 0] sj[of 1] sj[of 2] so[of 0] so[of 1] so[of 2] by auto
    then show "status (objs ?M ! snd (jobs ?M ! k')) \<noteq> Queued" by simp
  qed
  have c: "frees_slot 6 ?E ?M" by code_simp
  have nc: "\<not> is_create ?E" by (simp add: is_create_def)
  note t1 = queue_admission [where evs = three_jobs and now = 3 and i = "''d''"
      and u = "''http://host/d.zip''" and dir = "''/charts''" and nm = "[]" and e = Cleanup]
  note t2 = queue_admission [where evs = five_jobs and now = 5 and e = ?R
      and i = "[]" and u = "[]" and dir = "[]" and nm = "[]"]
  note t3 = queue_admission [where evs = five_jobs and now = 6 and e = ?E
      and i = "[]" and u = "[]" and dir = "[]" and nm = "[]"]
  have 1: "length (in_flight_jobs (run three_jobs)) \<le> 3" using t1 by (elim conjE)
  have "activeDownloads (run three_jobs) \<ge> maxConcurrent \<longrightarrow>
        map_of (jobs (createJob 3 ''d'' ''http://host/d.zip'' ''/charts'' [] (run three_jobs))) ''d'' =
          Some (length (objs (run three_jobs)))
        \<and> status (objs (createJob 3 ''d'' ''http://host/d.zip'' ''/charts'' [] (run three_jobs)) !
                  length (objs (run three_jobs))) = Queued
        \<and> activeDownloads (createJob 3 ''d'' ''http://host/d.zip'' ''/charts'' [] (run three_jobs)) =
            activeDownloads (run three_jobs)
        \<and> (\<forall>r < length (objs (run three_jobs)).
              objs (createJob 3 ''d'' ''http://host/d.zip'' ''/charts'' [] (run three_jobs)) ! r =
              objs (run three_jobs) ! r)"
    using t1 by (elim conjE)
  then have 2: "status (objs (createJob 3 ''d'' ''http://host/d.zip'' ''/charts'' [] (run three_jobs)) ! 3) = Queued"
    using a l3 by simp
  have "''d'' \<notin> set (map fst (jobs (run three_jobs))) \<longrightarrow>
        jobs (createJob 3 ''d'' ''http://host/d.zip'' ''/charts'' [] (run three_jobs)) =
          jobs (run three_jobs) @ [(''d'', length (objs (run three_jobs)))]"
    using t1 by (elim conjE)
  then have 3: "jobs (createJob 3 ''d'' ''http://host/d.zip'' ''/charts'' [] (run three_jobs)) =
       jobs (run three_jobs) @ [(''d'', 3)]"
    using fr l3 by simp
  have "activeDownloads ?M \<ge> maxConcurrent \<and> \<not> frees_slot 5 ?R ?M \<longrightarrow>
        (\<forall>r < length (objs ?M). status (objs ?M ! r) = Queued \<longrightarrow>
           status (objs (step 5 ?R ?M) ! r) = Queued \<or> status (objs (step 5 ?R ?M) ! r) = Failed)"
    using t2 by (elim conjE)
  then have "status (objs (step 5 ?R ?M) ! 3) = Queued \<or> status (objs (step 5 ?R ?M) ! 3) = Failed"
    using b q3 lo by auto
  then have 4: "status (objs (step 5 ?R ?M) ! 3) \<noteq> Downloading" by auto
  have k3: "3 < length (jobs ?M)" by (simp add: lj)
  have "frees_slot 6 ?E ?M \<longrightarrow>
        (\<forall>k < length (jobs ?M).
           status (objs ?M ! snd (jobs ?M ! k)) = Queued \<and>
           (\<forall>k' < k. status (objs ?M ! snd (jobs ?M ! k')) \<noteq> Queued) \<longrightarrow>
             snd (jobs ?M ! k) < length (objs ?M) \<and>
             status (objs (step 6 ?E ?M) ! snd (jobs ?M ! k)) = Downloading \<and>
             (\<forall>r < length (objs ?M).
                r \<noteq> snd (jobs ?M ! k) \<and> status (objs ?M ! r) = Queued \<longrightarrow>
                  status (objs (step 6 ?E ?M) ! r) = Queued))"
    using t3 by (elim conjE)
  then have adm: "status (objs (step 6 ?E ?M) ! snd (jobs ?M ! 3)) = Downloading \<and>
             (\<forall>r < length (objs ?M).
                r \<noteq> snd (jobs ?M ! 3) \<and> status (objs ?M ! r) = Queued \<longrightarrow>
                  status (objs (step 6 ?E ?M) ! r) = Queued)"
    using c first k3 by blast
  have 5: "status (objs (step 6 ?E ?M) ! 3) = Downloading"
    using adm by (simp only: j3)
  have "4 < length (objs ?M) \<and> 4 \<noteq> snd (jobs ?M ! 3)" by (simp only: j3 lo) simp
  then have 6: "status (objs (step 6 ?E ?M) ! 4) = Queued"
    using adm q4 by blast
  have "\<not> is_create ?E \<longrightarrow>
        jobs (step 6 ?E ?M) =
          (if ?E = Cleanup then filter (\<lambda>(i, r). \<not> expired 6 (objs ?M ! r)) (jobs ?M) else jobs ?M)"
    using t3 by (elim conjE)
  then have 7: "jobs (step 6 ?E ?M) = jobs ?M"
    using nc by (simp del: step.simps)
  from 1 2 3 4 5 6 7 show ?thesis by (intro conjI)
qed

section \<open>Properties of cancellation\<close>

lemma cancelJob_unknown: "map_of (jobs m) i = None \<Longrightarrow> cancelJob t i m = (CancelError ''Job not found'', m)"
  by (simp add: cancelJob_def)

lemma cancelJob_completed:
  "map_of (jobs m) i = Some r \<Longrightarrow> status (objs m ! r) = Completed \<Longrightarrow>
   cancelJob t i m = (CancelError ''Job already completed'', m)"
  by (simp add: cancelJob_def)

lemma cancelJob_other:
  assumes "manager_ok m" "map_of (jobs m) i = Some r" "status (objs m ! r) \<noteq> Completed"
  shows "fst (cancelJob t i m) = CancelOk"
    and "status (objs (snd (cancelJob t i m)) ! r) = Failed"
    and "jerror (objs (snd (cancelJob t i m)) ! r) = Some ''Cancelled by user''"
    and "unlinked (objs (snd (cancelJob t i m)) ! r) =
           unlinked (objs m ! r) @
           map (\<lambda>fileName. path_join (targetDir (objs m ! r)) fileName) (targetFiles (objs m ! r))"
    and "jobs (snd (cancelJob t i m)) = jobs m"
    and "\<forall>r' < length (objs m). r' \<noteq> r \<longrightarrow> objs (snd (cancelJob t i m)) ! r' = objs m ! r'"
proof -
  have "(i, r) \<in> set (jobs m)" using assms(2) by (rule map_of_SomeD)
  then have r: "r < length (objs m)" by (rule refs_valid[OF assms(1)])
  have c: "cancelJob t i m = (CancelOk, m \<lparr> objs := (objs m)[r := cancel t (objs m ! r)] \<rparr>)"
    using assms(2,3) by (simp add: cancelJob_def)
  show "fst (cancelJob t i m) = CancelOk" by (simp add: c)
  show "status (objs (snd (cancelJob t i m)) ! r) = Failed"
    using r assms(3) by (simp add: c cancel_def)
  show "jerror (objs (snd (cancelJob t i m)) ! r) = Some ''Cancelled by user''"
    using r assms(3) by (simp add: c cancel_def)
  show "unlinked (objs (snd (cancelJob t i m)) ! r) =
           unlinked (objs m ! r) @
           map (\<lambda>fileName. path_join (targetDir (objs m ! r)) fileName) (targetFiles (objs m ! r))"
    using r assms(3) by (simp add: c cancel_def)
  show "jobs (snd (cancelJob t i m)) = jobs m" by (simp add: c)
  show "\<forall>r' < length (objs m). r' \<noteq> r \<longrightarrow> objs (snd (cancelJob t i m)) ! r' = objs m ! r'"
    by (simp add: c)
qed

text \<open>
  Claim C10. In every state the manager reaches, \<open>cancelJob\<close> fails exactly when the id
  is not in the \<open>Map\<close> or the job has status completed, and then the manager, its jobs
  and the calls they made to the file system are as before. For a job in any other
  status, failed included, it succeeds: the job gets status failed and the error
  \<open>Cancelled by user\<close>, \<open>fs.unlink\<close> is called for every name of \<open>targetFiles\<close> under
  the job's target directory, and no other job changes.
\<close>

theorem cancelJob_result:
  "(fst (cancelJob now i (run evs)) \<noteq> CancelOk \<longleftrightarrow>
      map_of (jobs (run evs)) i = None \<or>
      (\<exists>r. map_of (jobs (run evs)) i = Some r \<and> status (objs (run evs) ! r) = Completed))
   \<and> (fst (cancelJob now i (run evs)) \<noteq> CancelOk \<longrightarrow> snd (cancelJob now i (run evs)) = run evs)
   \<and> (map_of (jobs (run evs)) i = Some r \<and> status (objs (run evs) ! r) \<noteq> Completed \<longrightarrow>
        fst (cancelJob now i (run evs)) = CancelOk
        \<and> status (objs (snd (cancelJob now i (run evs))) ! r) = Failed
        \<and> jerror (objs (snd (cancelJob now i (run evs))) ! r) = Some ''Cancelled by user''
        \<and> unlinked (objs (snd (cancelJob now i (run evs))) ! r) =
            unlinked (objs (run evs) ! r) @
            map (\<lambda>fileName. path_join (targetDir (objs (run evs) ! r)) fileName)
              (targetFiles (objs (run evs) ! r))
        \<and> jobs (snd (cancelJob now i (run evs))) = jobs (run evs)
        \<and> (\<forall>r' < length (objs (run evs)). r' \<noteq> r \<longrightarrow>
              objs (snd (cancelJob now i (run evs))) ! r' = objs (run evs) ! r'))"
proof -
  note ok = run_ok[of evs]
  have 1: "fst (cancelJob now i (run evs)) \<noteq> CancelOk \<longleftrightarrow>
      map_of (jobs (run evs)) i = None \<or>
      (\<exists>r. map_of (jobs (run evs)) i = Some r \<and> status (objs (run evs) ! r) = Completed)"
    by (auto simp: cancelJob_def split: option.splits)
  have 2: "fst (cancelJob now i (run evs)) \<noteq> CancelOk \<longrightarrow> snd (cancelJob now i (run evs)) = run evs"
    by (auto simp: cancelJob_def split: option.splits)
  have 3: "map_of (jobs (run evs)) i = Some r \<and> status (objs (run evs) ! r) \<noteq> Completed \<longrightarrow>
        fst (cancelJob now i (run evs)) = CancelOk
        \<and> status (objs (snd (cancelJob now i (run evs))) ! r) = Failed
        \<and> jerror (objs (snd (cancelJob now i (run evs))) ! r) = Some ''Cancelled by user''
        \<and> unlinked (objs (snd (cancelJob now i (run evs))) ! r) =
            unlinked (objs (run evs) ! r) @
            map (\<lambda>fileName. path_join (targetDir (objs (run evs) ! r)) fileName)
              (targetFiles (objs (run evs) ! r))
        \<and> jobs (snd (cancelJob now i (run evs))) = jobs (run evs)
        \<and> (\<forall>r' < length (objs (run evs)). r' \<noteq> r \<longrightarrow>
              objs (snd (cancelJob now i (run evs))) ! r' = objs (run evs) ! r')"
    using cancelJob_other[OF ok, of i r now] by blast
  from 1 2 3 show ?thesis by (intro conjI)
qed

theorem cancelJob_result_witness:
  "fst (cancelJob 9 ''zz'' (run cancel_example)) = CancelError ''Job not found''
   \<and> snd (cancelJob 9 ''zz'' (run cancel_example)) = run cancel_example
   \<and> fst (cancelJob 9 ''a'' (run cancel_example)) = CancelOk
   \<and> status (objs (snd (cancelJob 9 ''a'' (run cancel_example))) ! 0) = Failed
   \<and> jerror (objs (snd (cancelJob 9 ''a'' (run cancel_example))) ! 0) = Some ''Cancelled by user''
   \<and> unlinked (objs (snd (cancelJob 9 ''a'' (run cancel_example))) ! 0) = [''/charts/a.mbtiles'']"
proof -
  have u: "map_of (jobs (run cancel_example)) ''zz'' = None" by code_simp
  have a: "map_of (jobs (run cancel_example)) ''a'' = Some 0 \<and>
           status (objs (run cancel_example) ! 0) \<noteq> Completed"
    by code_simp
  have f: "unlinked (objs (run cancel_example) ! 0) @
            map (\<lambda>fileName. path_join (targetDir (objs (run cancel_example) ! 0)) fileName)
              (targetFiles (objs (run cancel_example) ! 0)) = [''/charts/a.mbtiles'']"
    by code_simp
  note t1 = cancelJob_result [where evs = cancel_example and now = 9 and i = "''zz''"]
  note t2 = cancelJob_result [where evs = cancel_example and now = 9 and i = "''a''" and r = 0]
  have 1: "fst (cancelJob 9 ''zz'' (run cancel_example)) \<noteq> CancelOk" using t1 u by blast
  then have 2: "snd (cancelJob 9 ''zz'' (run cancel_example)) = run cancel_example" using t1 by blast
  have 0: "fst (cancelJob 9 ''zz'' (run cancel_example)) = CancelError ''Job not found''"
    using u by (simp add: cancelJob_unknown)
  have 3: "fst (cancelJob 9 ''a'' (run cancel_example)) = CancelOk
        \<and> status (objs (snd (cancelJob 9 ''a'' (run cancel_example))) ! 0) = Failed
        \<and> jerror (objs (snd (cancelJob 9 ''a'' (run cancel_example))) ! 0) = Some ''Cancelled by user''
        \<and> unlinked (objs (snd (cancelJob 9 ''a'' (run cancel_example))) ! 0) = [''/charts/a.mbtiles'']"
    using t2 a f by simp
  from 0 2 3 show ?thesis by simp
qed

end
